theory Spec2Isabelle
  imports Main
begin

section \<open>Stack frame layout (translate.py, StackInfo and get\_stack\_info)\<close>

text \<open>
  Python integers are unbounded, so byte offsets are \<open>int\<close>.  The only exceptions the
  modelled code raises are \<open>DecompFailure\<close> (with its message reduced to the values it
  interpolates), the \<open>AssertionError\<close> of a failed \<open>assert\<close>, the \<open>KeyError\<close>
  of a missing dictionary key, the \<open>IndexError\<close> of a list index out of range, and
  the \<open>InstrProcessingFailure\<close> that wraps an exception raised while an instruction is
  evaluated.
\<close>

datatype ArchEnum = MIPS | PPC

datatype failure_msg =
    GapInCalleeSavedRegion "int list" int int
  | UndeclaredWrite string

text \<open>
  Registers are identified by their \<open>register_name\<close>.  Of an \<open>Instruction\<close> (a class
  of the instruction decoder) the model keeps the declared inputs, outputs and clobbers,
  the line number, the target of a call and the flags \<open>in_pattern\<close> (here
  \<open>instr_in_pattern\<close>), \<open>is_return\<close> and \<open>is_conditional\<close>; its \<open>eval_fn\<close> is
  given separately, below.  A \<open>Register\<close> is printed with a dollar sign in front of
  its name.  Flow-graph nodes and \<open>Var\<close> objects are referred to by natural numbers.
\<close>

type_synonym Register = string

datatype Location = Reg Register | StackLocation int

record Instruction =
  inputs :: "Location list"
  outputs :: "Location list"
  clobbers :: "Location list"
  lineno :: int
  function_target :: "string option"
  instr_in_pattern :: bool
  is_return :: bool
  is_conditional :: bool

type_synonym InstructionSource = "Instruction option"

datatype error =
    DecompFailure failure_msg
  | AssertionError
  | KeyError
  | IndexError
  | InstrProcessingFailure Instruction error

definition Register_str :: "Register \<Rightarrow> string" where
  "Register_str reg = ''$'' @ reg"

type_synonym Node = nat

text \<open>
  The fields of \<open>StackInfo\<close> that the stack classification, the callee-saved region
  and the naming of temporaries read or write.  \<open>arch\<close> stands for
  \<open>global_info.arch.arch\<close>; \<open>arguments\<close> holds the \<open>value\<close> of each known
  \<open>PassedInArg\<close>; \<open>planned_inherited_phis\<close> is the set of that name in
  \<open>persistent_state\<close>.  Objects with identity (\<open>Var\<close>, and below the
  expressions compared by identity) are referred to by a natural number, so the pool
  \<open>temp_vars\<close> is a list of references.
\<close>

record StackInfo =
  arch :: ArchEnum
  allocated_stack_size :: int
  is_leaf :: bool
  subroutine_arg_top :: int
  callee_save_reg_region :: "int \<times> int"
  temp_vars :: "nat list"
  arguments :: "int list"
  temp_name_counter :: "string \<rightharpoonup> int"
  reg_vars :: "Register \<rightharpoonup> nat"
  planned_vars :: "Register \<times> InstructionSource \<rightharpoonup> nat"
  planned_inherited_phis :: "(Register \<times> Node) set"

text \<open>
  The loop of \<open>get_stack_info\<close> over the sorted offsets: \<open>top_end\<close> (the source's \<open>top\<close>) is the end of the
  region so far, \<open>internal_padding_added\<close> records that the single 4-byte word of
  padding has been used.  \<open>saved\<close> is the whole sorted list, kept for the message.
\<close>

fun callee_saved_loop :: "int list \<Rightarrow> int list \<Rightarrow> int \<Rightarrow> bool \<Rightarrow> error + int" where
  "callee_saved_loop saved [] top_end internal_padding_added = Inr top_end"
| "callee_saved_loop saved (offset # rest) top_end internal_padding_added =
     (if offset \<noteq> top_end then
        (if \<not> internal_padding_added \<and> offset = top_end + 4
         then callee_saved_loop saved rest (offset + 4) True
         else Inl (DecompFailure (GapInCalleeSavedRegion saved offset top_end)))
      else callee_saved_loop saved rest (offset + 4) internal_padding_added)"

text \<open>
  The block "Compute the bounds of the callee-saved register region, including padding"
  of \<open>get_stack_info\<close>: nothing happens for an empty list; otherwise the list is
  sorted, the bounds are stored and \<open>subroutine_arg_top\<close> is lowered to the bottom.
\<close>

definition compute_callee_save_region :: "int list \<Rightarrow> StackInfo \<Rightarrow> error + StackInfo" where
  "compute_callee_save_region callee_saved_offsets info =
     (if callee_saved_offsets = [] then Inr info
      else
        let sorted_offsets = sort callee_saved_offsets;
            bottom = hd sorted_offsets
        in case callee_saved_loop sorted_offsets sorted_offsets bottom False of
             Inl e \<Rightarrow> Inl e
           | Inr top_end \<Rightarrow>
               Inr (info\<lparr>callee_save_reg_region := (bottom, top_end),
                         subroutine_arg_top := min (subroutine_arg_top info) bottom\<rparr>))"

text \<open>
  The vocabulary of the specification: the gap in front of each offset is its distance
  from the end of the 4-byte slot before it (from \<open>prev_end\<close> for the first one).
\<close>

fun gaps_from :: "int \<Rightarrow> int list \<Rightarrow> int list" where
  "gaps_from prev_end [] = []"
| "gaps_from prev_end (offset # rest) = (offset - prev_end) # gaps_from (offset + 4) rest"

definition internal_gaps :: "int list \<Rightarrow> int list" where
  "internal_gaps sorted_offsets = filter (\<lambda>g. g \<noteq> 0) (gaps_from (hd sorted_offsets) sorted_offsets)"

definition is_gap_failure :: "error + StackInfo \<Rightarrow> bool" where
  "is_gap_failure r =
     (case r of Inl (DecompFailure (GapInCalleeSavedRegion _ _ _)) \<Rightarrow> True | _ \<Rightarrow> False)"


text \<open>The three region predicates of \<open>StackInfo\<close>, in the order of the source.\<close>

definition in_subroutine_arg_region :: "StackInfo \<Rightarrow> int \<Rightarrow> bool" where
  "in_subroutine_arg_region info location =
     (if arch info = PPC then False
      else if is_leaf info then False
      else location < subroutine_arg_top info)"

definition in_callee_save_reg_region :: "StackInfo \<Rightarrow> int \<Rightarrow> bool" where
  "in_callee_save_reg_region info location =
     (case callee_save_reg_region info of (lower_bound, upper_bound) \<Rightarrow>
        if lower_bound \<le> location \<and> location < upper_bound then True
        else if arch info = PPC \<and> location = allocated_stack_size info + 4 then True
        else False)"

definition location_above_stack :: "StackInfo \<Rightarrow> int \<Rightarrow> bool" where
  "location_above_stack info location = (location \<ge> allocated_stack_size info)"

text \<open>
  The branch that \<open>get_stack_var\<close> takes for a location: its \<open>if\<close>/\<open>elif\<close> chain
  tests the callee-saved region first, then the area above the frame, then the
  subroutine-argument region, and treats what is left as a local variable.
\<close>

datatype stack_region = CalleeSaveRegRegion | AboveStack | SubroutineArgRegion | LocalVariable

definition get_stack_var_region :: "StackInfo \<Rightarrow> int \<Rightarrow> stack_region" where
  "get_stack_var_region info location =
     (if in_callee_save_reg_region info location then CalleeSaveRegRegion
      else if location_above_stack info location then AboveStack
      else if in_subroutine_arg_region info location then SubroutineArgRegion
      else LocalVariable)"

text \<open>
  A frame whose saved-register region ends inside the frame and whose
  subroutine-argument boundary lies below both the frame size and the region, as
  \<open>get_stack_info\<close> leaves \<open>subroutine_arg_top\<close> for a non-leaf function.
\<close>

definition frame_regions_nested :: "StackInfo \<Rightarrow> bool" where
  "frame_regions_nested info =
     (snd (callee_save_reg_region info) \<le> allocated_stack_size info \<and>
      subroutine_arg_top info \<le> allocated_stack_size info \<and>
      (fst (callee_save_reg_region info) < snd (callee_save_reg_region info) \<longrightarrow>
         subroutine_arg_top info \<le> fst (callee_save_reg_region info)))"

definition mips_frame :: StackInfo where
  "mips_frame = \<lparr>arch = MIPS, allocated_stack_size = 40, is_leaf = False,
     subroutine_arg_top = 16, callee_save_reg_region = (0, 0), temp_vars = [],
     arguments = [],
     temp_name_counter = Map.empty, reg_vars = Map.empty, planned_vars = Map.empty,
     planned_inherited_phis = {}\<rparr>"

definition ppc_frame :: StackInfo where
  "ppc_frame = \<lparr>arch = PPC, allocated_stack_size = 16, is_leaf = False,
     subroutine_arg_top = 8, callee_save_reg_region = (8, 16), temp_vars = [],
     arguments = [],
     temp_name_counter = Map.empty, reg_vars = Map.empty, planned_vars = Map.empty,
     planned_inherited_phis = {}\<rparr>"

subsection \<open>Names of temporaries\<close>

text \<open>
  \<open>str_int\<close> is Python's decimal rendering of an integer, as the f-string
  \<open>f"_{counter}"\<close> produces it.
\<close>

definition digit_char :: "nat \<Rightarrow> char" where
  "digit_char d = char_of (48 + d)"

fun str_nat :: "nat \<Rightarrow> string" where
  "str_nat n = (if n < 10 then [digit_char n] else str_nat (n div 10) @ [digit_char (n mod 10)])"

declare str_nat.simps [simp del]

definition str_int :: "int \<Rightarrow> string" where
  "str_int i = (if i < 0 then CHR ''-'' # str_nat (nat (- i)) else str_nat (nat i))"

text \<open>\<open>StackInfo.temp_var\<close>: the name and the updated \<open>StackInfo\<close>.\<close>

definition temp_var :: "StackInfo \<Rightarrow> string \<Rightarrow> string \<times> StackInfo" where
  "temp_var info pfx =
     (let counter = (case temp_name_counter info pfx of None \<Rightarrow> 0 | Some c \<Rightarrow> c) + 1;
          info' = info\<lparr>temp_name_counter := (temp_name_counter info)(pfx \<mapsto> counter)\<rparr>
      in (pfx @ (if counter > 1 then ''_'' @ str_int counter else []), info'))"

section \<open>Expressions and the objects they share\<close>


text \<open>
  The expression classes.  A class declared with \<open>eq=False\<close> is compared by identity
  in Python, so its constructor carries the object's identity as its first argument; a
  class with \<open>eq=True\<close> is compared by its fields, and carries none.  With that, HOL's
  equality on \<open>expr\<close> is Python's \<open>==\<close>.  The \<open>type\<close> field (excluded from every
  comparison, and owned by the type system) is left out, and so are the other fields
  declared \<open>compare=False\<close>.

  \<open>EvalOnceExpr oid wrapped_expr var source emit_exactly_once trivial transparent\<close> and
  \<open>NaivePhiExpr oid reg node sources uses_dominator\<close> carry the fields that are fixed at
  construction; their mutable fields live in the store below, under the identity
  \<open>oid\<close>.  \<open>var\<close> is a reference to a \<open>Var\<close>, \<open>node\<close> to a flow-graph node.
  \<open>CommaConditionExpr\<close>, which the translation never builds, is left out.
\<close>

datatype expr =
    ErrorExpr nat "string option"
  | CommentExpr expr "string option" "string option"
  | SecondF64Half nat
  | CarryBit nat
  | BinaryOp nat expr string expr
  | TernaryOp nat expr expr expr
  | UnaryOp nat string expr
  | ExprCondition nat expr bool
  | Cast expr bool bool
  | FuncCall nat expr "expr list"
  | LocalVar int
  | PlannedPhiExpr nat nat "InstructionSource list"
  | PassedInArg int
  | SubroutineArg int
  | StructAccess expr int "int option"
  | ArrayAccess expr expr
  | GlobalSymbol nat string
  | Literal int
  | AddressOf expr
  | Lwl expr int
  | Load3Bytes expr
  | UnalignedLoad expr
  | EvalOnceExpr nat expr nat InstructionSource bool bool bool
  | NaivePhiExpr nat Register nat "InstructionSource list" bool

record Var =
  prefix :: string
  is_emitted :: bool
  name :: "string option"

text \<open>
  The state of one function's translation: the \<open>StackInfo\<close>, the \<open>Var\<close> objects, the
  mutable fields of the \<open>EvalOnceExpr\<close> objects (\<open>forced_emit\<close>, \<open>is_used\<close>) and of
  the \<open>NaivePhiExpr\<close> objects (\<open>phi_name\<close> for \<open>name\<close>, \<open>num_usages\<close>,
  \<open>replacement_expr\<close>), the shared list \<open>used_naive_phis\<close>, the list
  \<open>naive_phi_vars\<close> of the \<open>StackInfo\<close>, and the identity
  \<open>next_oid\<close> that the next object built gets.
\<close>

record State =
  stack_info :: StackInfo
  vars :: "nat \<Rightarrow> Var"
  forced_emit :: "nat \<Rightarrow> bool"
  is_used :: "nat \<Rightarrow> bool"
  phi_name :: "nat \<Rightarrow> string option"
  num_usages :: "nat \<Rightarrow> int"
  replacement_expr :: "nat \<Rightarrow> expr option"
  used_naive_phis :: "expr list"
  naive_phi_vars :: "expr list"
  next_oid :: nat

definition set_is_emitted :: "nat \<Rightarrow> State \<Rightarrow> State" where
  "set_is_emitted var s = s\<lparr>vars := (vars s)(var := (vars s var)\<lparr>is_emitted := True\<rparr>)\<rparr>"

definition set_is_used :: "nat \<Rightarrow> State \<Rightarrow> State" where
  "set_is_used oid s = s\<lparr>is_used := (is_used s)(oid := True)\<rparr>"

definition set_forced_emit :: "nat \<Rightarrow> State \<Rightarrow> State" where
  "set_forced_emit oid s = s\<lparr>forced_emit := (forced_emit s)(oid := True)\<rparr>"

text \<open>
  \<open>Var.format\<close>: the \<open>assert\<close>, then the lazy assignment of the name.
\<close>

definition Var_format :: "nat \<Rightarrow> State \<Rightarrow> error + (string \<times> State)" where
  "Var_format var s =
     (if \<not> is_emitted (vars s var) then Inl AssertionError
      else case name (vars s var) of
             None \<Rightarrow>
               (case temp_var (stack_info s) (prefix (vars s var)) of (nm, info') \<Rightarrow>
                  Inr (nm, s\<lparr>stack_info := info',
                               vars := (vars s)(var := (vars s var)\<lparr>name := Some nm\<rparr>)\<rparr>))
           | Some nm \<Rightarrow> Inr (nm, s))"

text \<open>Formatting a sequence of \<open>Var\<close>s in order, as printing the function does.\<close>

fun format_vars :: "nat list \<Rightarrow> State \<Rightarrow> error + (string list \<times> State)" where
  "format_vars [] s = Inr ([], s)"
| "format_vars (v # vs) s =
     (case Var_format v s of
        Inl e \<Rightarrow> Inl e
      | Inr (nm, s') \<Rightarrow>
          (case format_vars vs s' of
             Inl e \<Rightarrow> Inl e
           | Inr (nms, s'') \<Rightarrow> Inr (nm # nms, s'')))"

text \<open>
  \<open>uses_var\<close> and \<open>dependencies\<close>.  The dependencies of an \<open>EvalOnceExpr\<close> depend on
  whether its \<open>Var\<close> is emitted.
\<close>

fun uses_var :: "State \<Rightarrow> expr \<Rightarrow> bool" where
  "uses_var s (EvalOnceExpr oid wrapped_expr var source emit_exactly_once trivial transparent) =
     (is_emitted (vars s var) \<and> \<not> trivial)"
| "uses_var s _ = False"

fun dependencies :: "State \<Rightarrow> expr \<Rightarrow> expr list" where
  "dependencies s (ErrorExpr oid desc) = []"
| "dependencies s (CommentExpr e pre suf) = [e]"
| "dependencies s (SecondF64Half oid) = []"
| "dependencies s (CarryBit oid) = []"
| "dependencies s (BinaryOp oid left op right) = [left, right]"
| "dependencies s (TernaryOp oid cond left right) = [cond, left, right]"
| "dependencies s (UnaryOp oid op e) = [e]"
| "dependencies s (ExprCondition oid e is_negated) = [e]"
| "dependencies s (Cast e reinterpret silent) = [e]"
| "dependencies s (FuncCall oid function args) = args @ [function]"
| "dependencies s (LocalVar v) = []"
| "dependencies s (PlannedPhiExpr oid var sources) = []"
| "dependencies s (PassedInArg v) = []"
| "dependencies s (SubroutineArg v) = []"
| "dependencies s (StructAccess struct_var offset target_size) = [struct_var]"
| "dependencies s (ArrayAccess ptr index) = [ptr, index]"
| "dependencies s (GlobalSymbol oid symbol_name) = []"
| "dependencies s (Literal v) = []"
| "dependencies s (AddressOf e) = [e]"
| "dependencies s (Lwl load_expr k) = [load_expr]"
| "dependencies s (Load3Bytes load_expr) = [load_expr]"
| "dependencies s (UnalignedLoad load_expr) = [load_expr]"
| "dependencies s (EvalOnceExpr oid wrapped_expr var source emit_exactly_once trivial transparent) =
     (if is_emitted (vars s var) \<and> \<not> trivial then [] else [wrapped_expr])"
| "dependencies s (NaivePhiExpr oid reg node sources uses_dominator) = []"

text \<open>
  \<open>use\<close>.  The recursion follows \<open>wrapped_expr\<close>, the dependencies and, through the
  store, \<open>replacement_expr\<close>; it is bounded by a fuel argument that decreases at every
  call, and \<open>None\<close> stands for a call that has not returned within the fuel.
  \<open>use_each f es\<close> is the loop \<open>for expr in es: expr.use()\<close>.
\<close>

fun use_each :: "(expr \<Rightarrow> State \<Rightarrow> State option) \<Rightarrow> expr list \<Rightarrow> State \<Rightarrow> State option" where
  "use_each f [] s = Some s"
| "use_each f (e # es) s = (case f e s of None \<Rightarrow> None | Some s' \<Rightarrow> use_each f es s')"

fun use :: "nat \<Rightarrow> expr \<Rightarrow> State \<Rightarrow> State option" where
  "use 0 e s = None"
| "use (Suc n) (EvalOnceExpr oid wrapped_expr var source emit_exactly_once trivial transparent) s =
     map_option (set_is_used oid)
       (if trivial \<or> (transparent \<and> \<not> is_emitted (vars s var)) then use n wrapped_expr s
        else if \<not> is_used s oid then
          (if \<not> emit_exactly_once then use n wrapped_expr s else Some s)
        else Some (set_is_emitted var s))"
| "use (Suc n) (NaivePhiExpr oid reg node sources uses_dominator) s =
     (let s1 = (if num_usages s oid = 0
                then s\<lparr>used_naive_phis :=
                         used_naive_phis s @ [NaivePhiExpr oid reg node sources uses_dominator]\<rparr>
                else s);
          s2 = s1\<lparr>num_usages := (num_usages s1)(oid := num_usages s1 oid + 1)\<rparr>
      in case replacement_expr s2 oid of
           None \<Rightarrow> Some s2
         | Some r \<Rightarrow> use n r s2)"
| "use (Suc n) e s = use_each (use n) (dependencies s e) s"

text \<open>\<open>EvalOnceExpr.force\<close>, a method of \<open>EvalOnceExpr\<close> only.\<close>

fun force :: "nat \<Rightarrow> expr \<Rightarrow> State \<Rightarrow> State option" where
  "force n (EvalOnceExpr oid wrapped_expr var source emit_exactly_once trivial transparent) s =
     (if \<not> forced_emit s oid \<and> \<not> trivial then
        (case use n (EvalOnceExpr oid wrapped_expr var source emit_exactly_once trivial transparent)
                (set_is_emitted var (set_forced_emit oid s)) of
           None \<Rightarrow> None
         | Some s' \<Rightarrow>
             use n (EvalOnceExpr oid wrapped_expr var source emit_exactly_once trivial transparent) s')
      else Some s)"


text \<open>
  Vocabulary for the naming property: the name that \<open>temp_var\<close> hands out for a prefix
  at a counter value, the current counter of a prefix, and the condition that no prefix
  is another prefix followed by an underscore and a counter from 2 on.
\<close>

definition name_of_count :: "string \<Rightarrow> int \<Rightarrow> string" where
  "name_of_count pfx c = pfx @ (if c > 1 then ''_'' @ str_int c else [])"

definition counter_of :: "StackInfo \<Rightarrow> string \<Rightarrow> int" where
  "counter_of info pfx = (case temp_name_counter info pfx of None \<Rightarrow> 0 | Some c \<Rightarrow> c)"

definition prefixes_independent :: "string set \<Rightarrow> bool" where
  "prefixes_independent P = (\<forall>p\<in>P. \<forall>q\<in>P. \<forall>k\<ge>2. p \<noteq> q @ ''_'' @ str_int k)"

definition names_valid :: "nat set \<Rightarrow> State \<Rightarrow> bool" where
  "names_valid V s =
     ((\<forall>p. 0 \<le> counter_of (stack_info s) p) \<and>
      (\<forall>v\<in>V. \<forall>nm. name (vars s v) = Some nm \<longrightarrow>
         (\<exists>c. 1 \<le> c \<and> c \<le> counter_of (stack_info s) (prefix (vars s v)) \<and>
              nm = name_of_count (prefix (vars s v)) c)) \<and>
      (\<forall>v\<in>V. \<forall>w\<in>V. v \<noteq> w \<longrightarrow> name (vars s v) \<noteq> None \<longrightarrow>
         name (vars s v) \<noteq> name (vars s w)))"


text \<open>Example states: a store with no object touched yet, and stores with three \<open>Var\<close>s.\<close>

definition empty_state :: State where
  "empty_state =
     \<lparr>stack_info = mips_frame,
      vars = (\<lambda>_. \<lparr>prefix = [], is_emitted = False, name = None\<rparr>),
      forced_emit = (\<lambda>_. False), is_used = (\<lambda>_. False), phi_name = (\<lambda>_. None),
      num_usages = (\<lambda>_. 0), replacement_expr = (\<lambda>_. None), used_naive_phis = [],
      naive_phi_vars = [], next_oid = 100\<rparr>"

definition naming_state :: State where
  "naming_state =
     empty_state\<lparr>stack_info := mips_frame\<lparr>temp_vars := [0, 1, 2]\<rparr>,
       vars := (vars empty_state)
         (0 := \<lparr>prefix = ''temp_a0'', is_emitted = True, name = None\<rparr>,
          1 := \<lparr>prefix = ''temp_a0'', is_emitted = True, name = None\<rparr>,
          2 := \<lparr>prefix = ''temp_v0'', is_emitted = False, name = None\<rparr>)\<rparr>"

definition clash_state :: State where
  "clash_state =
     empty_state\<lparr>stack_info := mips_frame\<lparr>temp_vars := [0, 1, 2]\<rparr>,
       vars := (vars empty_state)
         (0 := \<lparr>prefix = ''temp_a0'', is_emitted = True, name = None\<rparr>,
          1 := \<lparr>prefix = ''temp_a0'', is_emitted = True, name = None\<rparr>,
          2 := \<lparr>prefix = ''temp_a0_2'', is_emitted = True, name = None\<rparr>)\<rparr>"

definition names_of :: "error + (string list \<times> State) \<Rightarrow> string list option" where
  "names_of r = (case r of Inl e \<Rightarrow> None | Inr (nms, s) \<Rightarrow> Some nms)"


text \<open>
  Vocabulary for the sharing protocol.  \<open>expr_vars e\<close> are the \<open>Var\<close>s that back an
  \<open>EvalOnceExpr\<close> occurring in \<open>e\<close>, \<open>store_vars s\<close> those that back one occurring in
  the \<open>replacement_expr\<close> of some phi.  \<open>use_frame s s'\<close> collects what no \<open>use()\<close>
  changes: it only ever sets \<open>is_used\<close> and \<open>is_emitted\<close>, raises \<open>num_usages\<close> and
  appends to \<open>used_naive_phis\<close>.
\<close>

fun expr_vars :: "expr \<Rightarrow> nat set" where
  "expr_vars (ErrorExpr oid desc) = {}"
| "expr_vars (CommentExpr e pre suf) = expr_vars e"
| "expr_vars (SecondF64Half oid) = {}"
| "expr_vars (CarryBit oid) = {}"
| "expr_vars (BinaryOp oid left op right) = expr_vars left \<union> expr_vars right"
| "expr_vars (TernaryOp oid cond left right) = expr_vars cond \<union> expr_vars left \<union> expr_vars right"
| "expr_vars (UnaryOp oid op e) = expr_vars e"
| "expr_vars (ExprCondition oid e is_negated) = expr_vars e"
| "expr_vars (Cast e reinterpret silent) = expr_vars e"
| "expr_vars (FuncCall oid function args) = expr_vars function \<union> (\<Union>a\<in>set args. expr_vars a)"
| "expr_vars (LocalVar v) = {}"
| "expr_vars (PlannedPhiExpr oid var sources) = {}"
| "expr_vars (PassedInArg v) = {}"
| "expr_vars (SubroutineArg v) = {}"
| "expr_vars (StructAccess struct_var offset target_size) = expr_vars struct_var"
| "expr_vars (ArrayAccess ptr index) = expr_vars ptr \<union> expr_vars index"
| "expr_vars (GlobalSymbol oid symbol_name) = {}"
| "expr_vars (Literal v) = {}"
| "expr_vars (AddressOf e) = expr_vars e"
| "expr_vars (Lwl load_expr k) = expr_vars load_expr"
| "expr_vars (Load3Bytes load_expr) = expr_vars load_expr"
| "expr_vars (UnalignedLoad load_expr) = expr_vars load_expr"
| "expr_vars (EvalOnceExpr oid wrapped_expr var source emit_exactly_once trivial transparent) =
     insert var (expr_vars wrapped_expr)"
| "expr_vars (NaivePhiExpr oid reg node sources uses_dominator) = {}"

definition store_vars :: "State \<Rightarrow> nat set" where
  "store_vars s = (\<Union>p. case replacement_expr s p of None \<Rightarrow> {} | Some r \<Rightarrow> expr_vars r)"

definition use_frame :: "State \<Rightarrow> State \<Rightarrow> bool" where
  "use_frame s s' =
     (stack_info s' = stack_info s \<and> next_oid s' = next_oid s \<and>
      forced_emit s' = forced_emit s \<and>
      phi_name s' = phi_name s \<and> replacement_expr s' = replacement_expr s \<and>
      (\<forall>v. prefix (vars s' v) = prefix (vars s v) \<and> name (vars s' v) = name (vars s v) \<and>
           (is_emitted (vars s v) \<longrightarrow> is_emitted (vars s' v))) \<and>
      (\<forall>oid. is_used s oid \<longrightarrow> is_used s' oid) \<and>
      (\<forall>p. num_usages s p \<le> num_usages s' p) \<and>
      (\<exists>ext. used_naive_phis s' = used_naive_phis s @ ext))"

text \<open>An opaque and a transparent wrapper of the local variable at offset 8.\<close>

definition opaque_wrapper :: expr where
  "opaque_wrapper = EvalOnceExpr 0 (LocalVar 8) 0 None False False False"

definition transparent_wrapper :: expr where
  "transparent_wrapper = EvalOnceExpr 0 (LocalVar 8) 0 None False False True"

text \<open>A transparent wrapper of a phi.\<close>

definition phi_wrapper :: expr where
  "phi_wrapper = EvalOnceExpr 0 (NaivePhiExpr 7 ''v0'' 3 [None, None] True) 0 None False False True"


section \<open>Symbolic register state (RegInfo)\<close>

text \<open>
  The three unwrapping functions that follow \<open>wrapped_expr\<close> only.
\<close>

fun transparent_unwrap :: "State \<Rightarrow> expr \<Rightarrow> expr" where
  "transparent_unwrap s (EvalOnceExpr oid wrapped_expr var source emit_exactly_once trivial transparent) =
     (if transparent \<and> \<not> (is_emitted (vars s var) \<and> \<not> trivial)
      then transparent_unwrap s wrapped_expr
      else EvalOnceExpr oid wrapped_expr var source emit_exactly_once trivial transparent)"
| "transparent_unwrap s e = e"

fun early_unwrap :: "State \<Rightarrow> expr \<Rightarrow> expr" where
  "early_unwrap s (EvalOnceExpr oid wrapped_expr var source emit_exactly_once trivial transparent) =
     (if \<not> forced_emit s oid \<and> \<not> emit_exactly_once
      then early_unwrap s wrapped_expr
      else EvalOnceExpr oid wrapped_expr var source emit_exactly_once trivial transparent)"
| "early_unwrap s e = e"

fun unwrap_deep :: "expr \<Rightarrow> expr" where
  "unwrap_deep (EvalOnceExpr oid wrapped_expr var source emit_exactly_once trivial transparent) =
     unwrap_deep wrapped_expr"
| "unwrap_deep e = e"

text \<open>
  \<open>RegMeta\<close>, \<open>RegData\<close> and \<open>RegInfo\<close>.  The field \<open>force\<close> of \<open>RegMeta\<close> is
  called \<open>force_flag\<close> and the fields of \<open>RegData\<close> are \<open>reg_value\<close> and
  \<open>reg_meta\<close>, because \<open>force\<close> and \<open>value\<close> are taken.  The \<open>stack_info\<close> that a
  \<open>RegInfo\<close> refers to is the one of the state.
\<close>

record RegMeta =
  inherited :: bool
  initial :: bool
  is_read :: bool
  function_return :: bool
  uninteresting :: bool
  force_flag :: bool
  in_pattern :: bool

record RegData =
  reg_value :: expr
  reg_meta :: RegMeta

record RegInfo =
  contents :: "Register \<rightharpoonup> RegData"
  read_inherited :: "Register set"
  active_instr :: "Instruction option"

definition new_RegMeta :: RegMeta where
  "new_RegMeta = \<lparr>inherited = False, initial = False, is_read = False, function_return = False,
     uninteresting = False, force_flag = False, in_pattern = False\<rparr>"

definition get_instruction_lineno :: "RegInfo \<Rightarrow> int" where
  "get_instruction_lineno regs = (case active_instr regs of None \<Rightarrow> 0 | Some instr \<Rightarrow> lineno instr)"

text \<open>Building an \<open>ErrorExpr\<close>, an object with an identity of its own.\<close>

definition new_ErrorExpr :: "string option \<Rightarrow> State \<Rightarrow> expr \<times> State" where
  "new_ErrorExpr desc s = (ErrorExpr (next_oid s) desc, s\<lparr>next_oid := Suc (next_oid s)\<rparr>)"

text \<open>
  \<open>get_argument\<close> rounds the location down to a multiple of 4 (\<open>location & -4\<close>) and
  \<open>add_argument\<close> records it once, keeping the list sorted.
\<close>

definition add_argument :: "StackInfo \<Rightarrow> int \<Rightarrow> StackInfo" where
  "add_argument info v =
     (if v \<in> set (arguments info) then info
      else info\<lparr>arguments := sort (arguments info @ [v])\<rparr>)"

definition get_argument_value :: "int \<Rightarrow> int" where
  "get_argument_value location = 4 * (location div 4)"

text \<open>
  The \<open>isinstance\<close> tests of \<open>__getitem__\<close>: the wrapped expression of a trivial
  \<open>EvalOnceExpr\<close>, being an \<open>EvalOnceExpr\<close>, and the value of a \<open>PassedInArg\<close>.
\<close>

fun trivial_wrapped_expr :: "expr \<Rightarrow> expr option" where
  "trivial_wrapped_expr (EvalOnceExpr oid wrapped_expr var source emit_exactly_once trivial transparent) =
     (if trivial then Some wrapped_expr else None)"
| "trivial_wrapped_expr e = None"

fun is_EvalOnceExpr :: "expr \<Rightarrow> bool" where
  "is_EvalOnceExpr (EvalOnceExpr oid wrapped_expr var source emit_exactly_once trivial transparent) = True"
| "is_EvalOnceExpr e = False"

fun PassedInArg_value :: "expr \<Rightarrow> int option" where
  "PassedInArg_value (PassedInArg v) = Some v"
| "PassedInArg_value e = None"

text \<open>
  \<open>RegInfo.__getitem__\<close>.  The result is the expression read, the \<open>RegInfo\<close> with the
  metadata of the read recorded, and the state; the unifications of types are left to
  the type system.  \<open>None\<close> is a \<open>force()\<close> that has not returned within the fuel.
\<close>

definition RegInfo_getitem ::
  "nat \<Rightarrow> RegInfo \<Rightarrow> Register \<Rightarrow> State \<Rightarrow> (error + expr \<times> RegInfo \<times> State) option" where
  "RegInfo_getitem fuel regs key s =
     (if (case active_instr regs of None \<Rightarrow> False
          | Some instr \<Rightarrow> Reg key \<notin> set (inputs instr)) then
        (case new_ErrorExpr
                (Some (''Read from unset register '' @ Register_str key @ '' on line '' @
                       str_int (get_instruction_lineno regs))) s of
           (err, s') \<Rightarrow> Some (Inr (err, regs, s')))
      else if key = ''zero'' then Some (Inr (Literal 0, regs, s))
      else case contents regs key of
        None \<Rightarrow>
          (case new_ErrorExpr (Some (''Read from unset register '' @ Register_str key)) s of
             (err, s') \<Rightarrow> Some (Inr (err, regs, s')))
      | Some data \<Rightarrow>
          let ret = reg_value data;
              meta = (reg_meta data)\<lparr>is_read := True\<rparr>;
              regs1 = regs\<lparr>contents := (contents regs)(key \<mapsto> data\<lparr>reg_meta := meta\<rparr>),
                          read_inherited := (if inherited meta then insert key (read_inherited regs)
                                             else read_inherited regs)\<rparr>;
              uw_ret = early_unwrap s ret
          in case trivial_wrapped_expr ret of
               Some wrapped_expr \<Rightarrow> Some (Inr (wrapped_expr, regs1, s))
             | None \<Rightarrow>
               let s1 = (case PassedInArg_value uw_ret of
                           Some v \<Rightarrow>
                             if initial meta
                             then s\<lparr>stack_info := add_argument (stack_info s) (get_argument_value v)\<rparr>
                             else s
                         | None \<Rightarrow> s)
               in if force_flag meta then
                    (if \<not> is_EvalOnceExpr ret then Some (Inl AssertionError)
                     else case force fuel ret s1 of
                            None \<Rightarrow> None
                          | Some s2 \<Rightarrow> Some (Inr (ret, regs1, s2)))
                  else Some (Inr (ret, regs1, s1)))"

text \<open>The four methods that write \<open>contents\<close>.\<close>

definition set_with_meta :: "RegInfo \<Rightarrow> Register \<Rightarrow> expr \<Rightarrow> RegMeta \<Rightarrow> error + RegInfo" where
  "set_with_meta regs key v meta =
     (case active_instr regs of
        None \<Rightarrow> Inl AssertionError
      | Some instr \<Rightarrow>
          if Reg key \<notin> set (outputs instr) then Inl (DecompFailure (UndeclaredWrite key))
          else if \<not> key \<noteq> ''zero'' then Inl AssertionError
          else Inr (regs\<lparr>contents := (contents regs)(key \<mapsto> \<lparr>reg_value = v, reg_meta = meta\<rparr>)\<rparr>))"

definition global_set_with_meta :: "RegInfo \<Rightarrow> Register \<Rightarrow> expr \<Rightarrow> RegMeta \<Rightarrow> error + RegInfo" where
  "global_set_with_meta regs key v meta =
     (if \<not> active_instr regs = None then Inl AssertionError
      else if \<not> key \<noteq> ''zero'' then Inl AssertionError
      else Inr (regs\<lparr>contents := (contents regs)(key \<mapsto> \<lparr>reg_value = v, reg_meta = meta\<rparr>)\<rparr>))"

definition update_meta :: "RegInfo \<Rightarrow> Register \<Rightarrow> RegMeta \<Rightarrow> error + RegInfo" where
  "update_meta regs key meta =
     (if \<not> key \<noteq> ''zero'' then Inl AssertionError
      else case contents regs key of
        None \<Rightarrow> Inl KeyError
      | Some data \<Rightarrow>
          Inr (regs\<lparr>contents := (contents regs)(key \<mapsto> \<lparr>reg_value = reg_value data, reg_meta = meta\<rparr>)\<rparr>))"

definition RegInfo_delitem :: "RegInfo \<Rightarrow> Register \<Rightarrow> error + RegInfo" where
  "RegInfo_delitem regs key =
     (if \<not> key \<noteq> ''zero'' then Inl AssertionError
      else case contents regs key of
        None \<Rightarrow> Inl KeyError
      | Some data \<Rightarrow> Inr (regs\<lparr>contents := (contents regs)(key := None)\<rparr>))"

text \<open>
  Statements, the fields of a \<open>NodeState\<close> that the modelled code reads or writes
  (\<open>node\<close> is \<open>state_node\<close>, \<open>in_pattern\<close> is \<open>node_in_pattern\<close>, and of a \<open>SwitchControl\<close> the model keeps the
  \<open>control_expr\<close>), and the part of \<open>NodeState.set_reg_real\<close> that follows
  \<open>_eval_once\<close>: \<open>expr\<close> is the wrapper that \<open>_eval_once\<close> returned.  The zero
  register is never assigned: the expression is used and emitted as a statement.
\<close>

datatype stmt =
    EvalOnceStmt expr
  | SetNaivePhiStmt expr expr
  | ExprStmt expr
  | StoreStmt expr expr
  | CommentStmt string

record NodeState =
  state_node :: Node
  regs :: RegInfo
  node_in_pattern :: bool
  to_write :: "stmt list"
  branch_condition :: "expr option"
  switch_control :: "expr option"
  has_function_call :: bool

definition set_reg_real_store ::
  "nat \<Rightarrow> Register \<Rightarrow> expr \<Rightarrow> bool \<Rightarrow> NodeState \<Rightarrow> State \<Rightarrow> (error + NodeState \<times> State) option" where
  "set_reg_real_store fuel reg e fn_return ns s =
     (if reg = ''zero'' then
        (case use fuel e s of
           None \<Rightarrow> None
         | Some s' \<Rightarrow> Some (Inr (ns\<lparr>to_write := to_write ns @ [ExprStmt e]\<rparr>, s')))
      else
        (case set_with_meta (regs ns) reg e
                (new_RegMeta\<lparr>in_pattern := node_in_pattern ns, function_return := fn_return\<rparr>) of
           Inl err \<Rightarrow> Some (Inl err)
         | Inr regs' \<Rightarrow> Some (Inr (ns\<lparr>regs := regs'\<rparr>, s))))"

text \<open>
  \<open>as_type\<close>.  What it returns depends on the type system, which is another module: the
  types unify, or the target is a pointer to the type of the expression's first field, or
  neither.  That relation between the type of an expression and the type asked for is a
  parameter of the model.
\<close>

datatype type_relation = Unifies | PointsToFirstField "int option" | Unrelated

fun is_Literal :: "expr \<Rightarrow> bool" where
  "is_Literal (Literal v) = True"
| "is_Literal e = False"

definition as_type :: "type_relation \<Rightarrow> expr \<Rightarrow> bool \<Rightarrow> expr" where
  "as_type rel e silent =
     (case rel of
        Unifies \<Rightarrow> if silent \<or> is_Literal e then e else Cast e True False
      | PointsToFirstField target_size \<Rightarrow>
          if silent then AddressOf (StructAccess e 0 target_size)
          else Cast (AddressOf (StructAccess e 0 target_size)) True False
      | Unrelated \<Rightarrow> Cast e True False)"

text \<open>\<open>StackInfo.get_planned_var\<close>.\<close>

definition get_planned_var :: "StackInfo \<Rightarrow> Register \<Rightarrow> InstructionSource \<Rightarrow> nat option" where
  "get_planned_var info reg source =
     (case reg_vars info reg of
        Some var \<Rightarrow>
          (case source of
             Some instr \<Rightarrow>
               if function_target instr = None then Some var else planned_vars info (reg, source)
           | None \<Rightarrow> planned_vars info (reg, source))
      | None \<Rightarrow> planned_vars info (reg, source))"

text \<open>
  What the translation of a block reads from outside this module is gathered in a record
  \<open>Env\<close>: the formatter of register names (\<open>stack_info.function.reg_formatter\<close>), the
  options \<open>deterministic_vars\<close> and \<open>stop_on_error\<close>, the relation that the type
  system finds between the type of an expression and the type of a \<open>Var\<close>, whether a
  \<open>Cast\<close> keeps a float a float, the semantics \<open>eval_fn\<close> of each instruction (absent
  for some), and the texts of an exception and of an instruction.  An \<open>eval_fn\<close> returns
  the exception it raised, if any, with the state as it was left.
\<close>

record Env =
  reg_formatter :: "Register \<Rightarrow> string"
  deterministic_vars :: bool
  stop_on_error :: bool
  var_type_relation :: "expr \<Rightarrow> nat \<Rightarrow> type_relation"
  cast_keeps_float :: "expr \<Rightarrow> bool"
  eval_fn :: "Instruction \<Rightarrow> (NodeState \<Rightarrow> State \<Rightarrow> (error option \<times> NodeState \<times> State) option) option"
  error_text :: "error \<Rightarrow> string"
  instr_text :: "Instruction \<Rightarrow> string"

text \<open>
  \<open>is_trivial_expression\<close>, \<open>should_wrap_transparently\<close> and \<open>var_for_expr\<close>.  An
  \<open>AddressOf\<close> has one dependency, its operand.
\<close>

fun is_trivial_expression :: "expr \<Rightarrow> bool" where
  "is_trivial_expression (Literal v) = True"
| "is_trivial_expression (GlobalSymbol oid symbol_name) = True"
| "is_trivial_expression (SecondF64Half oid) = True"
| "is_trivial_expression (AddressOf e) = is_trivial_expression e"
| "is_trivial_expression e = False"

fun should_wrap_transparently :: "(expr \<Rightarrow> bool) \<Rightarrow> expr \<Rightarrow> bool" where
  "should_wrap_transparently keeps_float (EvalOnceExpr oid wrapped_expr var source emit_exactly_once trivial transparent) = True"
| "should_wrap_transparently keeps_float (Literal v) = True"
| "should_wrap_transparently keeps_float (GlobalSymbol oid symbol_name) = True"
| "should_wrap_transparently keeps_float (LocalVar v) = True"
| "should_wrap_transparently keeps_float (PassedInArg v) = True"
| "should_wrap_transparently keeps_float (NaivePhiExpr oid reg node sources uses_dominator) = True"
| "should_wrap_transparently keeps_float (PlannedPhiExpr oid var sources) = True"
| "should_wrap_transparently keeps_float (SecondF64Half oid) = True"
| "should_wrap_transparently keeps_float (SubroutineArg v) = True"
| "should_wrap_transparently keeps_float (AddressOf e) = should_wrap_transparently keeps_float e"
| "should_wrap_transparently keeps_float (Cast e reinterpret silent) =
     (reinterpret \<and> keeps_float (Cast e reinterpret silent) \<and> should_wrap_transparently keeps_float e)"
| "should_wrap_transparently keeps_float e = False"

fun var_for_expr :: "expr \<Rightarrow> nat option" where
  "var_for_expr (PlannedPhiExpr oid var sources) = Some var"
| "var_for_expr (EvalOnceExpr oid wrapped_expr var source emit_exactly_once trivial transparent) =
     (if \<not> trivial then Some var else None)"
| "var_for_expr e = None"

fun is_AddressOf :: "expr \<Rightarrow> bool" where
  "is_AddressOf (AddressOf e) = True"
| "is_AddressOf e = False"

fun is_phi :: "expr \<Rightarrow> bool" where
  "is_phi (PlannedPhiExpr oid var sources) = True"
| "is_phi (NaivePhiExpr oid reg node sources uses_dominator) = True"
| "is_phi e = False"

text \<open>
  \<open>uses_expr\<close>; \<open>parent_is_AddressOf\<close> stands for \<open>isinstance(parent, AddressOf)\<close>.
  A dependency is smaller than the expression it is a dependency of.
\<close>

lemma size_list_member: "d \<in> set xs \<Longrightarrow> size d \<le> size_list size xs + k"
  by (induction xs) auto

lemma dependencies_size: "d \<in> set (dependencies s e) \<Longrightarrow> size d < size e"
  by (cases e) (auto simp: less_Suc_eq_le size_list_member split: if_splits)

function uses_expr :: "State \<Rightarrow> (expr \<Rightarrow> bool) \<Rightarrow> bool \<Rightarrow> expr \<Rightarrow> bool" where
  "uses_expr s expr_filter parent_is_AddressOf e =
     ((expr_filter e \<and> \<not> parent_is_AddressOf) \<or>
      list_ex (uses_expr s expr_filter (is_AddressOf e)) (dependencies s e))"
  by pat_completeness auto
termination
  by (relation "measure (\<lambda>(s, f, p, e). size e)") (auto simp: dependencies_size)

text \<open>
  \<open>NodeState._prevent_later_uses\<close> and \<open>prevent_later_var_uses\<close>.  A register is
  forced when its value is no phi, is not forced yet and uses an expression that the
  filter accepts.  The loop runs over the dictionary in its order; here all registers are
  updated at once, and the failure of \<open>static_assert_unreachable\<close> or of the assertion
  of \<open>update_meta\<close> is raised before any update is made.
\<close>

definition to_force :: "State \<Rightarrow> (expr \<Rightarrow> bool) \<Rightarrow> RegData \<Rightarrow> bool" where
  "to_force s expr_filter data =
     (\<not> is_phi (reg_value data) \<and> \<not> force_flag (reg_meta data) \<and>
      uses_expr s expr_filter False (reg_value data))"

definition prevent_later_uses :: "State \<Rightarrow> (expr \<Rightarrow> bool) \<Rightarrow> RegInfo \<Rightarrow> error + RegInfo" where
  "prevent_later_uses s expr_filter rg =
     (if \<exists>r data. contents rg r = Some data \<and> to_force s expr_filter data \<and>
           (\<not> is_EvalOnceExpr (reg_value data) \<or> \<not> r \<noteq> ''zero'')
      then Inl AssertionError
      else Inr (rg\<lparr>contents := (\<lambda>r. map_option
                  (\<lambda>data. if to_force s expr_filter data
                           then \<lparr>reg_value = reg_value data,
                                 reg_meta = (reg_meta data)\<lparr>force_flag := True\<rparr>\<rparr>
                           else data)
                  (contents rg r))\<rparr>))"

definition prevent_later_var_uses :: "State \<Rightarrow> nat set \<Rightarrow> RegInfo \<Rightarrow> error + RegInfo" where
  "prevent_later_var_uses s var_set rg =
     prevent_later_uses s (\<lambda>e. case var_for_expr e of None \<Rightarrow> False | Some v \<Rightarrow> v \<in> var_set) rg"

text \<open>
  \<open>NodeState._eval_once\<close>.  The result is the exception raised or the wrapper built,
  with the state as it was left.  A new \<open>Var\<close> and a new \<open>EvalOnceExpr\<close> get the next
  identities; the list \<open>debug_exprs\<close> of the \<open>Var\<close>, which only debugging output reads,
  is left out.
\<close>

fun is_infix :: "string \<Rightarrow> string \<Rightarrow> bool" where
  "is_infix xs [] = (xs = [])"
| "is_infix xs (y # ys) = (take (length xs) (y # ys) = xs \<or> is_infix xs ys)"

definition new_Var :: "string \<Rightarrow> State \<Rightarrow> nat \<times> State" where
  "new_Var pfx s =
     (next_oid s,
      s\<lparr>vars := (vars s)(next_oid s := \<lparr>prefix = pfx, is_emitted = False, name = None\<rparr>),
        next_oid := Suc (next_oid s)\<rparr>)"

definition new_EvalOnceExpr ::
  "expr \<Rightarrow> nat \<Rightarrow> InstructionSource \<Rightarrow> bool \<Rightarrow> bool \<Rightarrow> bool \<Rightarrow> State \<Rightarrow> expr \<times> State" where
  "new_EvalOnceExpr wrapped_expr var source emit_exactly_once trivial transparent s =
     (EvalOnceExpr (next_oid s) wrapped_expr var source emit_exactly_once trivial transparent,
      s\<lparr>forced_emit := (forced_emit s)(next_oid s := False),
        is_used := (is_used s)(next_oid s := False),
        next_oid := Suc (next_oid s)\<rparr>)"

definition temp_name_for :: "Env \<Rightarrow> Register \<Rightarrow> RegInfo \<Rightarrow> string" where
  "temp_name_for env reg rg =
     (let pfx0 = reg_formatter env reg;
          pfx = (if pfx0 = ''condition_bit'' then ''cond'' else pfx0);
          temp_name = ''temp_'' @ pfx
      in if deterministic_vars env then temp_name @ ''_'' @ str_int (get_instruction_lineno rg)
         else temp_name)"

definition eval_once ::
  "nat \<Rightarrow> Env \<Rightarrow> expr \<Rightarrow> bool \<Rightarrow> bool \<Rightarrow> Register \<Rightarrow> InstructionSource \<Rightarrow> NodeState \<Rightarrow> State \<Rightarrow>
   ((error + expr) \<times> NodeState \<times> State) option" where
  "eval_once fuel env e emit_exactly_once transparent reg source ns s =
     (let planned_var = get_planned_var (stack_info s) reg source in
      if is_infix ''_fictive_'' reg \<and> is_EvalOnceExpr e then
        (if \<not> \<not> emit_exactly_once then Some (Inl AssertionError, ns, s)
         else if \<not> planned_var = None then Some (Inl AssertionError, ns, s)
         else Some (Inr e, ns, s))
      else
        let trivial = (transparent \<and> is_trivial_expression e) in
        case (if emit_exactly_once then use fuel e s else Some s) of
          None \<Rightarrow> None
        | Some s1 \<Rightarrow>
            (case planned_var of
               Some var \<Rightarrow>
                 (case prevent_later_var_uses s1 {var} (regs ns) of
                    Inl err \<Rightarrow> Some (Inl err, ns, s1)
                  | Inr regs' \<Rightarrow>
                      (case new_EvalOnceExpr (as_type (var_type_relation env e var) e True) var source
                              emit_exactly_once trivial transparent s1 of
                         (wrapper, s2) \<Rightarrow>
                           (case use fuel wrapper (set_is_emitted var s2) of
                              None \<Rightarrow> None
                            | Some s3 \<Rightarrow>
                                Some (Inr wrapper,
                                      ns\<lparr>regs := regs',
                                         to_write := to_write ns @ [EvalOnceStmt wrapper]\<rparr>, s3))))
             | None \<Rightarrow>
                 (case new_Var (temp_name_for env reg (regs ns)) s1 of
                    (var, s2) \<Rightarrow>
                      (case new_EvalOnceExpr e var source emit_exactly_once trivial transparent
                              (s2\<lparr>stack_info := (stack_info s2)\<lparr>temp_vars :=
                                     temp_vars (stack_info s2) @ [var]\<rparr>\<rparr>) of
                         (wrapper, s3) \<Rightarrow>
                           Some (Inr wrapper,
                                 ns\<lparr>to_write := to_write ns @ [EvalOnceStmt wrapper]\<rparr>, s3)))))"

text \<open>
  \<open>NodeState.set_reg_real\<close>: the assertion, \<open>_eval_once\<close>, and the part that was
  given above.  \<open>set_with_meta\<close> raises before it changes anything.
\<close>

definition set_reg_real ::
  "nat \<Rightarrow> Env \<Rightarrow> Register \<Rightarrow> expr \<Rightarrow> bool option \<Rightarrow> bool \<Rightarrow> bool \<Rightarrow> NodeState \<Rightarrow> State \<Rightarrow>
   ((error + expr) \<times> NodeState \<times> State) option" where
  "set_reg_real fuel env reg uw_expr transparent emit_exactly_once fn_return ns s =
     (case active_instr (regs ns) of
        None \<Rightarrow> Some (Inl AssertionError, ns, s)
      | Some source \<Rightarrow>
          (case eval_once fuel env uw_expr emit_exactly_once
                  (case transparent of
                     None \<Rightarrow> should_wrap_transparently (cast_keeps_float env) uw_expr
                   | Some t \<Rightarrow> t)
                  reg (Some source) ns s of
             None \<Rightarrow> None
           | Some (Inl err, ns1, s1) \<Rightarrow> Some (Inl err, ns1, s1)
           | Some (Inr wrapper, ns1, s1) \<Rightarrow>
               (case set_reg_real_store fuel reg wrapper fn_return ns1 s1 of
                  None \<Rightarrow> None
                | Some (Inl err) \<Rightarrow> Some (Inl err, ns1, s1)
                | Some (Inr (ns2, s2)) \<Rightarrow> Some (Inr wrapper, ns2, s2))))"

text \<open>
  \<open>NodeState.current_instr\<close> around \<open>evaluate_instruction\<close>: the instruction is made
  the active one, an exception raised inside is wrapped in an \<open>InstrProcessingFailure\<close>
  (by the context manager of the instruction decoder), and at the end, raised or not,
  no instruction is active.  \<open>is_return_node\<close> stands for
  \<open>isinstance(state.node, ReturnNode)\<close>.
\<close>

definition evaluate_instruction ::
  "Env \<Rightarrow> bool \<Rightarrow> Instruction \<Rightarrow> NodeState \<Rightarrow> State \<Rightarrow> (error option \<times> NodeState \<times> State) option" where
  "evaluate_instruction env is_return_node instr ns s =
     (if is_return instr \<and> \<not> is_return_node then Some (Some AssertionError, ns, s)
      else if is_conditional instr \<and> \<not> (branch_condition ns = None \<and> switch_control ns = None)
      then Some (Some AssertionError, ns, s)
      else
        (case (case eval_fn env instr of None \<Rightarrow> Some (None, ns, s) | Some f \<Rightarrow> f ns s) of
           None \<Rightarrow> None
         | Some (Some err, ns', s') \<Rightarrow> Some (Some err, ns', s')
         | Some (None, ns', s') \<Rightarrow>
             if is_conditional instr \<and> \<not> (branch_condition ns' \<noteq> None \<or> switch_control ns' \<noteq> None)
             then Some (Some AssertionError, ns', s')
             else Some (None, ns', s')))"

definition with_current_instr ::
  "Env \<Rightarrow> bool \<Rightarrow> Instruction \<Rightarrow> NodeState \<Rightarrow> State \<Rightarrow> (error option \<times> NodeState \<times> State) option" where
  "with_current_instr env is_return_node instr ns s =
     (if \<not> active_instr (regs ns) = None then Some (Some AssertionError, ns, s)
      else
        (case evaluate_instruction env is_return_node instr
                (ns\<lparr>regs := (regs ns)\<lparr>active_instr := Some instr\<rparr>,
                    node_in_pattern := instr_in_pattern instr\<rparr>) s of
           None \<Rightarrow> None
         | Some (raised, ns', s') \<Rightarrow>
             Some (map_option (InstrProcessingFailure instr) raised,
                   ns'\<lparr>regs := (regs ns')\<lparr>active_instr := None\<rparr>, node_in_pattern := False\<rparr>, s')))"

fun evaluate_instructions ::
  "Env \<Rightarrow> bool \<Rightarrow> Instruction list \<Rightarrow> NodeState \<Rightarrow> State \<Rightarrow> (error option \<times> NodeState \<times> State) option" where
  "evaluate_instructions env is_return_node [] ns s = Some (None, ns, s)"
| "evaluate_instructions env is_return_node (instr # rest) ns s =
     (case with_current_instr env is_return_node instr ns s of
        None \<Rightarrow> None
      | Some (Some err, ns', s') \<Rightarrow> Some (Some err, ns', s')
      | Some (None, ns', s') \<Rightarrow> evaluate_instructions env is_return_node rest ns' s')"

text \<open>
  A \<open>BlockInfo\<close>; \<open>get_block_info\<close> fails its assertion for a node without one.  Of a
  \<open>SwitchControl\<close> the model keeps the \<open>control_expr\<close>.
\<close>

record BlockInfo =
  block_to_write :: "stmt list"
  return_value :: "expr option"
  block_switch_control :: "expr option"
  block_branch_condition :: "expr option"
  final_register_states :: RegInfo
  block_has_function_call :: bool

type_synonym Blocks = "Node \<Rightarrow> BlockInfo option"

text \<open>\<open>translate_node_body\<close> and \<open>translate_block\<close>.\<close>

definition use_optional :: "nat \<Rightarrow> expr option \<Rightarrow> State \<Rightarrow> State option" where
  "use_optional fuel e s = (case e of None \<Rightarrow> Some s | Some e' \<Rightarrow> use fuel e' s)"

definition translate_node_body ::
  "nat \<Rightarrow> Env \<Rightarrow> bool \<Rightarrow> Instruction list \<Rightarrow> NodeState \<Rightarrow> State \<Rightarrow>
   ((error + BlockInfo) \<times> NodeState \<times> State) option" where
  "translate_node_body fuel env is_return_node instrs ns s =
     (case evaluate_instructions env is_return_node instrs ns s of
        None \<Rightarrow> None
      | Some (Some err, ns1, s1) \<Rightarrow> Some (Inl err, ns1, s1)
      | Some (None, ns1, s1) \<Rightarrow>
          (case use_optional fuel (branch_condition ns1) s1 of
             None \<Rightarrow> None
           | Some s2 \<Rightarrow>
               (case use_optional fuel (switch_control ns1) s2 of
                  None \<Rightarrow> None
                | Some s3 \<Rightarrow>
                    Some (Inr \<lparr>block_to_write = to_write ns1, return_value = None,
                               block_switch_control = switch_control ns1,
                               block_branch_condition = branch_condition ns1,
                               final_register_states = regs ns1,
                               block_has_function_call = has_function_call ns1\<rparr>, ns1, s3))))"

fun error_stmts :: "Env \<Rightarrow> error \<Rightarrow> stmt list" where
  "error_stmts env (InstrProcessingFailure instr cause) =
     [CommentStmt (''Error: '' @ error_text env cause),
      CommentStmt (''At instruction: '' @ instr_text env instr)]"
| "error_stmts env e = [CommentStmt (''Error: '' @ error_text env e)]"

definition translate_block ::
  "nat \<Rightarrow> Env \<Rightarrow> bool \<Rightarrow> Instruction list \<Rightarrow> NodeState \<Rightarrow> State \<Rightarrow>
   ((error + BlockInfo) \<times> NodeState \<times> State) option" where
  "translate_block fuel env is_return_node instrs ns s =
     (case translate_node_body fuel env is_return_node instrs ns s of
        None \<Rightarrow> None
      | Some (Inr block_info, ns1, s1) \<Rightarrow> Some (Inr block_info, ns1, s1)
      | Some (Inl err, ns1, s1) \<Rightarrow>
          if stop_on_error env then Some (Inl err, ns1, s1)
          else
            (case new_ErrorExpr None s1 of
               (condition, s2) \<Rightarrow>
                 Some (Inr \<lparr>block_to_write = error_stmts env err, return_value = None,
                            block_switch_control = None,
                            block_branch_condition = Some condition,
                            final_register_states = regs ns1,
                            block_has_function_call = False\<rparr>, ns1, s2)))"

text \<open>Example register states: inside an instruction \<open>addu $v0, $a0, $a1\<close>, and outside.\<close>

definition addu_instr :: Instruction where
  "addu_instr = \<lparr>inputs = [Reg ''a0'', Reg ''a1''], outputs = [Reg ''v0''], clobbers = [],
     lineno = 7, function_target = None, instr_in_pattern = False, is_return = False,
     is_conditional = False\<rparr>"

definition regs_in_addu :: RegInfo where
  "regs_in_addu = \<lparr>contents = Map.empty, read_inherited = {}, active_instr = Some addu_instr\<rparr>"

definition regs_idle :: RegInfo where
  "regs_idle = \<lparr>contents = Map.empty, read_inherited = {}, active_instr = None\<rparr>"

text \<open>
  An example environment: registers are named as they are, every type unifies with every
  other, and no instruction has a semantics.
\<close>

definition plain_env :: Env where
  "plain_env = \<lparr>reg_formatter = (\<lambda>reg. reg), deterministic_vars = False, stop_on_error = False,
     var_type_relation = (\<lambda>e var. Unifies), cast_keeps_float = (\<lambda>e. True),
     eval_fn = (\<lambda>instr. None), error_text = (\<lambda>e. ''error''),
     instr_text = (\<lambda>instr. ''instruction'')\<rparr>"

text \<open>
  An instruction semantics that is wrong for \<open>addu $v0, $a0, $a1\<close>: it writes \<open>$a0\<close>,
  which is not among the outputs.
\<close>

definition faulty_env :: Env where
  "faulty_env = plain_env\<lparr>eval_fn := (\<lambda>instr. Some (\<lambda>ns s.
     case set_reg_real 2 plain_env ''a0'' (Literal 1) None False False ns s of
       None \<Rightarrow> None
     | Some (Inl err, ns', s') \<Rightarrow> Some (Some err, ns', s')
     | Some (Inr e, ns', s') \<Rightarrow> Some (None, ns', s'))),
     error_text := (\<lambda>e. case e of
        DecompFailure (UndeclaredWrite r) \<Rightarrow> ''Undeclared write to '' @ Register_str r
      | _ \<Rightarrow> ''error'')\<rparr>"

definition idle_state :: NodeState where
  "idle_state = \<lparr>state_node = 0, regs = regs_idle, node_in_pattern = False, to_write = [],
     branch_condition = None, switch_control = None, has_function_call = False\<rparr>"


section \<open>Flow graph and phi sources\<close>

text \<open>
  Of the flow graph (built by another module) the translation reads the list of nodes,
  each node's parents, instructions, immediate dominator, block index, class, the nodes
  it immediately dominates, and what the function \<open>locs_clobbered_until_dominator\<close> of
  that module returns for it.  A node is referred to by a natural number; \<open>entry_node\<close>
  is the first node.
\<close>

datatype NodeKind = BasicNode | ConditionalNode | SwitchNode | ReturnNode | TerminalNode

record FlowGraph =
  nodes :: "Node list"
  parents :: "Node \<Rightarrow> Node list"
  instructions :: "Node \<Rightarrow> Instruction list"
  immediate_dominator :: "Node \<Rightarrow> Node option"
  block_index :: "Node \<Rightarrow> int"
  node_kind :: "Node \<Rightarrow> NodeKind"
  immediately_dominates :: "Node \<Rightarrow> Node list"
  locs_clobbered_until_dominator :: "Node \<Rightarrow> Location list"

definition entry_node :: "FlowGraph \<Rightarrow> Node" where
  "entry_node g = hd (nodes g)"

text \<open>
  The inner loop of \<open>reg_sources\<close> over the instructions of a block, last one first:
  the first instruction met that has the register among its outputs is a source, one
  that clobbers it ends the search, and the \<open>else\<close> of the \<open>for\<close> is \<open>NotWritten\<close>.
\<close>

datatype block_scan = Source Instruction | Clobbered | NotWritten

fun scan_block :: "Register \<Rightarrow> Instruction list \<Rightarrow> block_scan" where
  "scan_block reg [] = NotWritten"
| "scan_block reg (instr # rest) =
     (if Reg reg \<in> set (outputs instr) then Source instr
      else if Reg reg \<in> set (clobbers instr) then Clobbered
      else scan_block reg rest)"

text \<open>
  The \<open>while stack\<close> loop of \<open>reg_sources\<close>.  The stack is kept with its top at the
  head of the list: \<open>stack.pop()\<close> takes the head, and \<open>stack.extend(n.parents)\<close>
  puts the parents, last one first, in front.
\<close>

partial_function (option) reg_sources_loop ::
  "FlowGraph \<Rightarrow> Register \<Rightarrow> Node \<Rightarrow> Node list \<Rightarrow> Node set \<Rightarrow> InstructionSource list \<Rightarrow> bool \<Rightarrow>
   (InstructionSource list \<times> bool) option" where
  "reg_sources_loop g reg idom stack seen sources uses_dominator =
     (case stack of
        [] \<Rightarrow> Some (sources, uses_dominator)
      | n # rest \<Rightarrow>
          let uses_dominator' = (if n = idom then True else uses_dominator) in
          if n \<in> seen then reg_sources_loop g reg idom rest seen sources uses_dominator'
          else
            (case scan_block reg (rev (instructions g n)) of
               Source instr \<Rightarrow>
                 reg_sources_loop g reg idom rest (insert n seen) (sources @ [Some instr])
                   uses_dominator'
             | Clobbered \<Rightarrow> Some ([], False)
             | NotWritten \<Rightarrow>
                 reg_sources_loop g reg idom (rev (parents g n) @ rest) (insert n seen) sources
                   uses_dominator'))"

definition reg_sources ::
  "FlowGraph \<Rightarrow> Node \<Rightarrow> Register \<Rightarrow> (error + InstructionSource list \<times> bool) option" where
  "reg_sources g node reg =
     (case immediate_dominator g node of
        None \<Rightarrow> Some (Inl AssertionError)
      | Some idom \<Rightarrow>
          map_option Inr (reg_sources_loop g reg idom (rev (parents g node)) {idom} [] False))"


text \<open>
  Vocabulary for the search: what the scan of a node's block finds, the invariant of the
  loop (every node taken from the stack and not written in has all its parents seen or
  still on the stack, and one source was recorded per node that writes the register),
  and what the loop's result satisfies.
\<close>

definition node_scan :: "FlowGraph \<Rightarrow> Register \<Rightarrow> Node \<Rightarrow> block_scan" where
  "node_scan g reg n = scan_block reg (rev (instructions g n))"

definition writes_reg :: "FlowGraph \<Rightarrow> Register \<Rightarrow> Node \<Rightarrow> bool" where
  "writes_reg g reg n = (case node_scan g reg n of Source instr \<Rightarrow> True | _ \<Rightarrow> False)"












text \<open>
  The part of \<open>create_dominated_node_state\<close> that builds the register state of a child
  of the dominator tree.  \<open>get_raw\<close> and \<open>get_meta\<close> are lookups it uses; \<open>RegExpression_sources\<close> are the sources that the dominator's value
  contributes (a register holds an \<open>EvalOnceExpr\<close> or one of the two phi kinds).
\<close>

definition is_planned_inherited_phi :: "StackInfo \<Rightarrow> Node \<Rightarrow> Register \<Rightarrow> bool" where
  "is_planned_inherited_phi info node reg = ((reg, node) \<in> planned_inherited_phis info)"

definition get_raw :: "RegInfo \<Rightarrow> Register \<Rightarrow> expr option" where
  "get_raw rg key = map_option reg_value (contents rg key)"

definition get_meta :: "RegInfo \<Rightarrow> Register \<Rightarrow> RegMeta option" where
  "get_meta rg key = map_option reg_meta (contents rg key)"

fun RegExpression_sources :: "expr \<Rightarrow> InstructionSource list option" where
  "RegExpression_sources (EvalOnceExpr oid wrapped_expr var source emit_exactly_once trivial transparent) =
     Some [source]"
| "RegExpression_sources (PlannedPhiExpr oid var sources) = Some sources"
| "RegExpression_sources (NaivePhiExpr oid reg node sources uses_dominator) = Some sources"
| "RegExpression_sources e = None"

text \<open>
  The sources of the phi for one register: those found by \<open>reg_sources\<close>, followed by
  those of the dominator's value when the dominator is reached; none at all when the
  dominator is reached and has no value.  A value of another class is
  \<open>static_assert_unreachable\<close>.
\<close>

definition phi_sources ::
  "FlowGraph \<Rightarrow> RegInfo \<Rightarrow> Node \<Rightarrow> Register \<Rightarrow> (error + InstructionSource list \<times> bool) option" where
  "phi_sources g parent_regs child reg =
     (case reg_sources g child reg of
        None \<Rightarrow> None
      | Some (Inl e) \<Rightarrow> Some (Inl e)
      | Some (Inr (sources, uses_dominator)) \<Rightarrow>
          if uses_dominator then
            (case get_raw parent_regs reg of
               None \<Rightarrow> Some (Inr ([], uses_dominator))
             | Some dom_expr \<Rightarrow>
                 (case RegExpression_sources dom_expr of
                    None \<Rightarrow> Some (Inl AssertionError)
                  | Some dom_sources \<Rightarrow> Some (Inr (sources @ dom_sources, uses_dominator))))
          else Some (Inr (sources, uses_dominator)))"

text \<open>
  The phi built for a non-empty list of sources: a \<open>PlannedPhiExpr\<close> when all sources
  have the same planned variable, a \<open>NaivePhiExpr\<close> with no usage, name or replacement
  otherwise.
\<close>

definition new_phi_expr ::
  "Register \<Rightarrow> Node \<Rightarrow> InstructionSource list \<Rightarrow> bool \<Rightarrow> State \<Rightarrow> expr \<times> State" where
  "new_phi_expr reg child sources uses_dominator s =
     (let var = get_planned_var (stack_info s) reg (hd sources);
          oid = next_oid s
      in case var of
           Some v \<Rightarrow>
             if list_all (\<lambda>src. get_planned_var (stack_info s) reg src = var) (tl sources)
             then (PlannedPhiExpr oid v sources, s\<lparr>next_oid := Suc oid\<rparr>)
             else (NaivePhiExpr oid reg child sources uses_dominator,
                   s\<lparr>num_usages := (num_usages s)(oid := 0), phi_name := (phi_name s)(oid := None),
                     replacement_expr := (replacement_expr s)(oid := None), next_oid := Suc oid\<rparr>)
         | None \<Rightarrow>
             (NaivePhiExpr oid reg child sources uses_dominator,
              s\<lparr>num_usages := (num_usages s)(oid := 0), phi_name := (phi_name s)(oid := None),
                replacement_expr := (replacement_expr s)(oid := None), next_oid := Suc oid\<rparr>))"

text \<open>
  One round of the loop over \<open>phi_regs\<close>, and the loop.  \<open>phi_regs\<close> are the registers
  that \<open>locs_clobbered_until_dominator\<close> (a function of the flow-graph module) returns
  for the child.
\<close>

definition create_phi_for_reg ::
  "FlowGraph \<Rightarrow> RegInfo \<Rightarrow> Node \<Rightarrow> Register \<Rightarrow> RegInfo \<Rightarrow> State \<Rightarrow> (error + RegInfo \<times> State) option" where
  "create_phi_for_reg g parent_regs child reg new_regs s =
     (case (if is_planned_inherited_phi (stack_info s) child reg then get_meta new_regs reg else None) of
        Some meta \<Rightarrow>
          (case update_meta new_regs reg (meta\<lparr>initial := False\<rparr>) of
             Inl e \<Rightarrow> Some (Inl e)
           | Inr new_regs' \<Rightarrow> Some (Inr (new_regs', s)))
      | None \<Rightarrow>
          (case phi_sources g parent_regs child reg of
             None \<Rightarrow> None
           | Some (Inl e) \<Rightarrow> Some (Inl e)
           | Some (Inr (sources, uses_dominator)) \<Rightarrow>
               if sources \<noteq> [] then
                 (case new_phi_expr reg child sources uses_dominator s of
                    (e, s') \<Rightarrow>
                      (case global_set_with_meta new_regs reg e (new_RegMeta\<lparr>inherited := True\<rparr>) of
                         Inl err \<Rightarrow> Some (Inl err)
                       | Inr new_regs' \<Rightarrow> Some (Inr (new_regs', s'))))
               else if contents new_regs reg \<noteq> None then
                 (case RegInfo_delitem new_regs reg of
                    Inl err \<Rightarrow> Some (Inl err)
                  | Inr new_regs' \<Rightarrow> Some (Inr (new_regs', s)))
               else Some (Inr (new_regs, s))))"

fun create_phis ::
  "FlowGraph \<Rightarrow> RegInfo \<Rightarrow> Node \<Rightarrow> Register list \<Rightarrow> RegInfo \<Rightarrow> State \<Rightarrow> (error + RegInfo \<times> State) option" where
  "create_phis g parent_regs child [] new_regs s = Some (Inr (new_regs, s))"
| "create_phis g parent_regs child (reg # phi_regs) new_regs s =
     (case create_phi_for_reg g parent_regs child reg new_regs s of
        None \<Rightarrow> None
      | Some (Inl e) \<Rightarrow> Some (Inl e)
      | Some (Inr (new_regs', s')) \<Rightarrow> create_phis g parent_regs child phi_regs new_regs' s')"

text \<open>
  The first loop of \<open>create_dominated_node_state\<close>: every value of the dominator is
  inherited, with fresh metadata.
\<close>

definition inherit_regs :: "RegInfo \<Rightarrow> error + RegInfo" where
  "inherit_regs parent_regs =
     (if contents parent_regs ''zero'' \<noteq> None then Inl AssertionError
      else Inr \<lparr>contents =
                 (\<lambda>reg. map_option
                    (\<lambda>data. \<lparr>reg_value = reg_value data,
                              reg_meta = new_RegMeta\<lparr>inherited := True,
                                force_flag := force_flag (reg_meta data),
                                initial := initial (reg_meta data)\<rparr>\<rparr>)
                    (contents parent_regs reg)),
               read_inherited = {}, active_instr = None\<rparr>)"

text \<open>
  \<open>vars_clobbered_until_dominator\<close>: the planned variables of the registers that the
  instructions of the nodes between the dominator and the node have among their outputs.
  The stack has its top at the head, as in \<open>reg_sources\<close>; the fuel bounds the number
  of rounds of the loop.
\<close>

definition planned_output_vars :: "StackInfo \<Rightarrow> Instruction \<Rightarrow> nat set \<Rightarrow> nat set" where
  "planned_output_vars info instr clobbered =
     fold (\<lambda>loc acc.
             case loc of
               Reg r \<Rightarrow> (case get_planned_var info r (Some instr) of
                           None \<Rightarrow> acc
                         | Some var \<Rightarrow> insert var acc)
             | StackLocation v \<Rightarrow> acc)
          (outputs instr) clobbered"

fun vars_clobbered_loop ::
  "nat \<Rightarrow> FlowGraph \<Rightarrow> StackInfo \<Rightarrow> Node list \<Rightarrow> Node set \<Rightarrow> nat set \<Rightarrow> nat set option" where
  "vars_clobbered_loop fuel g info [] seen clobbered = Some clobbered"
| "vars_clobbered_loop 0 g info (n # rest) seen clobbered = None"
| "vars_clobbered_loop (Suc fuel) g info (n # rest) seen clobbered =
     (if n \<in> seen then vars_clobbered_loop fuel g info rest seen clobbered
      else vars_clobbered_loop fuel g info (rev (parents g n) @ rest) (insert n seen)
             (fold (planned_output_vars info) (instructions g n) clobbered))"

definition vars_clobbered_until_dominator ::
  "nat \<Rightarrow> FlowGraph \<Rightarrow> StackInfo \<Rightarrow> Node \<Rightarrow> (error + nat set) option" where
  "vars_clobbered_until_dominator fuel g info node =
     (case immediate_dominator g node of
        None \<Rightarrow> Some (Inl AssertionError)
      | Some idom \<Rightarrow>
          map_option Inr (vars_clobbered_loop fuel g info (rev (parents g node)) {idom} {}))"

text \<open>
  \<open>create_dominated_node_state\<close>: the register state of the child is inherited from
  the state that the dominator has at the end of its block, phis are created for the
  registers of \<open>locs_clobbered_until_dominator\<close>, and later uses of the clobbered
  variables are prevented.
\<close>

fun register_of :: "Location \<Rightarrow> Register list" where
  "register_of (Reg r) = [r]"
| "register_of (StackLocation v) = []"

definition phi_regs :: "FlowGraph \<Rightarrow> Node \<Rightarrow> Register list" where
  "phi_regs g child = concat (map register_of (locs_clobbered_until_dominator g child))"

definition create_dominated_node_state ::
  "nat \<Rightarrow> FlowGraph \<Rightarrow> NodeState \<Rightarrow> Node \<Rightarrow> State \<Rightarrow> (error + NodeState \<times> State) option" where
  "create_dominated_node_state fuel g parent_state child s =
     (case inherit_regs (regs parent_state) of
        Inl err \<Rightarrow> Some (Inl err)
      | Inr new_regs \<Rightarrow>
          (case create_phis g (regs parent_state) child (phi_regs g child) new_regs s of
             None \<Rightarrow> None
           | Some (Inl err) \<Rightarrow> Some (Inl err)
           | Some (Inr (new_regs', s')) \<Rightarrow>
               (case vars_clobbered_until_dominator fuel g (stack_info s') child of
                  None \<Rightarrow> None
                | Some (Inl err) \<Rightarrow> Some (Inl err)
                | Some (Inr clobbered_vars) \<Rightarrow>
                    (case prevent_later_var_uses s' clobbered_vars new_regs' of
                       Inl err \<Rightarrow> Some (Inl err)
                     | Inr child_regs \<Rightarrow>
                         Some (Inr (\<lparr>state_node = child, regs = child_regs, node_in_pattern = False,
                                     to_write = [], branch_condition = None,
                                     switch_control = None, has_function_call = False\<rparr>, s'))))))"

text \<open>
  \<open>translate_all_blocks\<close>.  The stack of node states has its top at the head.  The
  states of the children are created last child first, and each is put on top of the
  stack, so the first child is translated next.  \<open>add_block_info\<close> records the
  \<open>BlockInfo\<close> of the node.  The fuel bounds the number of nodes translated.
\<close>

fun create_children ::
  "nat \<Rightarrow> FlowGraph \<Rightarrow> NodeState \<Rightarrow> Node list \<Rightarrow> NodeState list \<Rightarrow> State \<Rightarrow>
   (error + NodeState list \<times> State) option" where
  "create_children fuel g parent_state [] translate_stack s = Some (Inr (translate_stack, s))"
| "create_children fuel g parent_state (child # rest) translate_stack s =
     (if node_kind g child = TerminalNode
      then create_children fuel g parent_state rest translate_stack s
      else
        (case create_dominated_node_state fuel g parent_state child s of
           None \<Rightarrow> None
         | Some (Inl err) \<Rightarrow> Some (Inl err)
         | Some (Inr (child_state, s')) \<Rightarrow>
             create_children fuel g parent_state rest (child_state # translate_stack) s'))"

fun translate_all_blocks ::
  "nat \<Rightarrow> Env \<Rightarrow> FlowGraph \<Rightarrow> NodeState list \<Rightarrow> Blocks \<Rightarrow> BlockInfo list \<Rightarrow> State \<Rightarrow>
   (error + Blocks \<times> BlockInfo list \<times> State) option" where
  "translate_all_blocks fuel env g [] blocks return_blocks s = Some (Inr (blocks, return_blocks, s))"
| "translate_all_blocks 0 env g (state # translate_stack) blocks return_blocks s = None"
| "translate_all_blocks (Suc fuel) env g (state # translate_stack) blocks return_blocks s =
     (case translate_block fuel env (node_kind g (state_node state) = ReturnNode)
             (instructions g (state_node state)) state s of
        None \<Rightarrow> None
      | Some (Inl err, state1, s1) \<Rightarrow> Some (Inl err)
      | Some (Inr block_info, state1, s1) \<Rightarrow>
          (case create_children fuel g state1 (rev (immediately_dominates g (state_node state1)))
                  translate_stack s1 of
             None \<Rightarrow> None
           | Some (Inl err) \<Rightarrow> Some (Inl err)
           | Some (Inr (translate_stack', s2)) \<Rightarrow>
               translate_all_blocks fuel env g translate_stack'
                 (blocks(state_node state1 \<mapsto> block_info))
                 (if node_kind g (state_node state1) = ReturnNode then return_blocks @ [block_info]
                  else return_blocks)
                 s2))"







section \<open>Resolution of naive phis (assign\_naive\_phis)\<close>

text \<open>
  \<open>instr_nodes\<close> is the dictionary built at the head of \<open>assign_naive_phis\<close>: a later
  node overwrites an earlier one.
\<close>

definition instr_nodes :: "FlowGraph \<Rightarrow> Instruction \<rightharpoonup> Node" where
  "instr_nodes g =
     fold (\<lambda>n m. fold (\<lambda>inst m'. m'(inst \<mapsto> n)) (instructions g n) m) (nodes g) Map.empty"

definition source_node :: "FlowGraph \<Rightarrow> InstructionSource \<Rightarrow> error + Node" where
  "source_node g source =
     (case source of
        None \<Rightarrow> Inr (entry_node g)
      | Some instr \<Rightarrow> (case instr_nodes g instr of None \<Rightarrow> Inl KeyError | Some n \<Rightarrow> Inr n))"

text \<open>
  \<open>get_block_info(node).final_register_states[reg]\<close>: the read changes the metadata of
  the block's register state, and may change the state.
\<close>

definition read_final_register ::
  "nat \<Rightarrow> Node \<Rightarrow> Register \<Rightarrow> Blocks \<Rightarrow> State \<Rightarrow> (error + expr \<times> Blocks \<times> State) option" where
  "read_final_register fuel node reg blocks s =
     (case blocks node of
        None \<Rightarrow> Some (Inl AssertionError)
      | Some block_info \<Rightarrow>
          (case RegInfo_getitem fuel (final_register_states block_info) reg s of
             None \<Rightarrow> None
           | Some (Inl e) \<Rightarrow> Some (Inl e)
           | Some (Inr (e, rg', s')) \<Rightarrow>
               Some (Inr (e, blocks(node \<mapsto> block_info\<lparr>final_register_states := rg'\<rparr>), s'))))"

text \<open>
  The dictionary \<open>equivalent_nodes\<close>, in insertion order, and the loop that fills it
  from the sources of the phi.
\<close>

fun add_equivalent :: "expr \<Rightarrow> Node \<Rightarrow> (expr \<times> Node list) list \<Rightarrow> (expr \<times> Node list) list" where
  "add_equivalent k n [] = [(k, [n])]"
| "add_equivalent k n ((k', ns) # rest) =
     (if k' = k then (k', ns @ [n]) # rest else (k', ns) # add_equivalent k n rest)"

fun group_sources ::
  "nat \<Rightarrow> FlowGraph \<Rightarrow> Register \<Rightarrow> InstructionSource list \<Rightarrow> (expr \<times> Node list) list \<Rightarrow> Blocks \<Rightarrow> State \<Rightarrow>
   (error + (expr \<times> Node list) list \<times> Blocks \<times> State) option" where
  "group_sources fuel g reg [] equivalent_nodes blocks s = Some (Inr (equivalent_nodes, blocks, s))"
| "group_sources fuel g reg (source # rest) equivalent_nodes blocks s =
     (case source_node g source of
        Inl e \<Rightarrow> Some (Inl e)
      | Inr node \<Rightarrow>
          (case read_final_register fuel node reg blocks s of
             None \<Rightarrow> None
           | Some (Inl e) \<Rightarrow> Some (Inl e)
           | Some (Inr (e, blocks', s')) \<Rightarrow>
               group_sources fuel g reg rest
                 (add_equivalent (transparent_unwrap s' e) node equivalent_nodes) blocks' s'))"

text \<open>
  The loop \<open>for _ in range(phi.num_usages): phi_expr.use()\<close>, and the two nested loops
  that append a \<open>SetNaivePhiStmt\<close> to the block of each node.
\<close>

fun use_times :: "nat \<Rightarrow> nat \<Rightarrow> expr \<Rightarrow> State \<Rightarrow> State option" where
  "use_times fuel 0 e s = Some s"
| "use_times fuel (Suc k) e s =
     (case use fuel e s of None \<Rightarrow> None | Some s' \<Rightarrow> use_times fuel k e s')"

definition append_stmt :: "Node \<Rightarrow> stmt \<Rightarrow> Blocks \<Rightarrow> Blocks" where
  "append_stmt node st blocks =
     (case blocks node of
        None \<Rightarrow> blocks
      | Some block_info \<Rightarrow>
          blocks(node \<mapsto> block_info\<lparr>block_to_write := block_to_write block_info @ [st]\<rparr>))"

fun assign_nodes ::
  "nat \<Rightarrow> (expr \<Rightarrow> type_relation) \<Rightarrow> expr \<Rightarrow> Register \<Rightarrow> Node list \<Rightarrow> Blocks \<Rightarrow> State \<Rightarrow>
   (error + Blocks \<times> State) option" where
  "assign_nodes fuel ty phi reg [] blocks s = Some (Inr (blocks, s))"
| "assign_nodes fuel ty phi reg (node # rest) blocks s =
     (case read_final_register fuel node reg blocks s of
        None \<Rightarrow> None
      | Some (Inl e) \<Rightarrow> Some (Inl e)
      | Some (Inr (e, blocks1, s1)) \<Rightarrow>
          (case use fuel e s1 of
             None \<Rightarrow> None
           | Some s2 \<Rightarrow>
               assign_nodes fuel ty phi reg rest
                 (append_stmt node (SetNaivePhiStmt phi (as_type (ty e) e True)) blocks1) s2))"

fun assign_groups ::
  "nat \<Rightarrow> (expr \<Rightarrow> type_relation) \<Rightarrow> expr \<Rightarrow> Register \<Rightarrow> (expr \<times> Node list) list \<Rightarrow> Blocks \<Rightarrow> State \<Rightarrow>
   (error + Blocks \<times> State) option" where
  "assign_groups fuel ty phi reg [] blocks s = Some (Inr (blocks, s))"
| "assign_groups fuel ty phi reg ((e, ns) # rest) blocks s =
     (case assign_nodes fuel ty phi reg ns blocks s of
        None \<Rightarrow> None
      | Some (Inl err) \<Rightarrow> Some (Inl err)
      | Some (Inr (blocks', s')) \<Rightarrow> assign_groups fuel ty phi reg rest blocks' s')"

definition add_planned_inherited_phi :: "Node \<Rightarrow> Register \<Rightarrow> State \<Rightarrow> State" where
  "add_planned_inherited_phi node reg s =
     s\<lparr>stack_info := (stack_info s)\<lparr>planned_inherited_phis :=
          insert (reg, node) (planned_inherited_phis (stack_info s))\<rparr>\<rparr>"

text \<open>
  The test whether all values are equal, and the two branches of the body of the
  \<open>while\<close> loop for the phi \<open>NaivePhiExpr oid reg node sources uses_dominator\<close>.
\<close>

definition all_values_equal :: "State \<Rightarrow> (expr \<times> Node list) list \<Rightarrow> bool" where
  "all_values_equal s equivalent_nodes =
     list_all (\<lambda>e. early_unwrap s e = early_unwrap s (hd (map fst equivalent_nodes)))
       (tl (map fst equivalent_nodes))"

fun resolve_naive_phi ::
  "nat \<Rightarrow> (expr \<Rightarrow> type_relation) \<Rightarrow> expr \<Rightarrow> (expr \<times> Node list) list \<Rightarrow> Blocks \<Rightarrow> State \<Rightarrow>
   (error + Blocks \<times> State) option" where
  "resolve_naive_phi fuel ty (NaivePhiExpr oid reg node sources uses_dominator) equivalent_nodes blocks s =
     (let exprs = map fst equivalent_nodes in
      if exprs = [] then Some (Inl IndexError)
      else
        let first_uw = early_unwrap s (hd exprs) in
        if all_values_equal s equivalent_nodes then
          (let phi_expr = (if length exprs = 1 then hd exprs else first_uw);
               s1 = s\<lparr>replacement_expr :=
                        (replacement_expr s)(oid \<mapsto> as_type (ty phi_expr) phi_expr True)\<rparr>
           in case use_times fuel (nat (num_usages s oid)) phi_expr s1 of
                None \<Rightarrow> None
              | Some s2 \<Rightarrow>
                  Some (Inr (blocks,
                    if uses_dominator \<and> length exprs = 1
                    then add_planned_inherited_phi node reg s2 else s2)))
        else
          assign_groups fuel ty (NaivePhiExpr oid reg node sources uses_dominator) reg
            equivalent_nodes blocks s)"

text \<open>The body of the \<open>while\<close> loop: the three assertions, the grouping, the resolution.\<close>

fun assign_naive_phi ::
  "nat \<Rightarrow> FlowGraph \<Rightarrow> (expr \<Rightarrow> type_relation) \<Rightarrow> expr \<Rightarrow> Blocks \<Rightarrow> State \<Rightarrow>
   (error + Blocks \<times> State) option" where
  "assign_naive_phi fuel g ty (NaivePhiExpr oid reg node sources uses_dominator) blocks s =
     (if \<not> num_usages s oid > 0 then Some (Inl AssertionError)
      else if \<not> length sources \<ge> 2 then Some (Inl AssertionError)
      else if \<not> length (parents g node) \<ge> 2 then Some (Inl AssertionError)
      else
        (case group_sources fuel g reg sources [] blocks s of
           None \<Rightarrow> None
         | Some (Inl e) \<Rightarrow> Some (Inl e)
         | Some (Inr (equivalent_nodes, blocks1, s1)) \<Rightarrow>
             resolve_naive_phi fuel ty (NaivePhiExpr oid reg node sources uses_dominator)
               equivalent_nodes blocks1 s1))"

text \<open>
  The \<open>while\<close> loop over \<open>used_naive_phis\<close>, which may grow while it runs; the fuel
  bounds the number of rounds.
\<close>

fun assign_naive_phis_loop ::
  "nat \<Rightarrow> FlowGraph \<Rightarrow> (expr \<Rightarrow> type_relation) \<Rightarrow> nat \<Rightarrow> Blocks \<Rightarrow> State \<Rightarrow>
   (error + Blocks \<times> State) option" where
  "assign_naive_phis_loop 0 g ty i blocks s = None"
| "assign_naive_phis_loop (Suc fuel) g ty i blocks s =
     (if i < length (used_naive_phis s) then
        (case assign_naive_phi fuel g ty (used_naive_phis s ! i) blocks s of
           None \<Rightarrow> None
         | Some (Inl e) \<Rightarrow> Some (Inl e)
         | Some (Inr (blocks', s')) \<Rightarrow> assign_naive_phis_loop fuel g ty (i + 1) blocks' s')
      else Some (Inr (blocks, s)))"

text \<open>
  The final loop gives a name to every phi that has no replacement.  The formatter of
  register names and the option \<open>deterministic_vars\<close> are those of \<open>Env\<close>.  The merging of
  the planned variables of the sources for the next pass, which only writes the
  persistent \<open>planned_vars\<close>, is left out.
\<close>

fun name_naive_phi :: "Env \<Rightarrow> FlowGraph \<Rightarrow> expr \<Rightarrow> State \<Rightarrow> State" where
  "name_naive_phi env g (NaivePhiExpr oid reg node sources uses_dominator) s =
     (if replacement_expr s oid = None then
        (let pfx0 = ''phi_'' @ reg_formatter env reg;
             pfx = (if deterministic_vars env then pfx0 @ ''_'' @ str_int (block_index g node) else pfx0)
         in case temp_var (stack_info s) pfx of
              (nm, info') \<Rightarrow>
                s\<lparr>phi_name := (phi_name s)(oid \<mapsto> nm),
                  stack_info := info',
                  naive_phi_vars :=
                    naive_phi_vars s @ [NaivePhiExpr oid reg node sources uses_dominator]\<rparr>)
      else s)"

definition name_naive_phis :: "Env \<Rightarrow> FlowGraph \<Rightarrow> State \<Rightarrow> State" where
  "name_naive_phis env g s =
     fold (name_naive_phi env g) (used_naive_phis s) s"

definition assign_naive_phis ::
  "nat \<Rightarrow> Env \<Rightarrow> FlowGraph \<Rightarrow> (expr \<Rightarrow> type_relation) \<Rightarrow> Blocks \<Rightarrow> State \<Rightarrow>
   (error + Blocks \<times> State) option" where
  "assign_naive_phis fuel env g ty blocks s =
     (case assign_naive_phis_loop fuel g ty 0 blocks s of
        None \<Rightarrow> None
      | Some (Inl e) \<Rightarrow> Some (Inl e)
      | Some (Inr (blocks', s')) \<Rightarrow>
          Some (Inr (blocks', name_naive_phis env g s')))"




















section \<open>Verification\<close>

subsection \<open>The callee-saved region\<close>

lemma callee_saved_loop_ok:
  "filter (\<lambda>g. g \<noteq> 0) (gaps_from t0 xs) = [] \<or>
   (\<not> pad \<and> filter (\<lambda>g. g \<noteq> 0) (gaps_from t0 xs) = [4]) \<Longrightarrow>
   callee_saved_loop saved xs t0 pad = Inr (if xs = [] then t0 else last xs + 4)"
proof (induction xs arbitrary: t0 pad)
  case Nil
  then show ?case by simp
next
  case (Cons x xs)
  show ?case
  proof (cases "x = t0")
    case True
    with Cons.prems have
      "filter (\<lambda>g. g \<noteq> 0) (gaps_from (x + 4) xs) = [] \<or>
       (\<not> pad \<and> filter (\<lambda>g. g \<noteq> 0) (gaps_from (x + 4) xs) = [4])"
      by simp
    from Cons.IH [OF this] True show ?thesis by simp
  next
    case False
    with Cons.prems have p: "\<not> pad" and x: "x = t0 + 4"
      and r: "filter (\<lambda>g. g \<noteq> 0) (gaps_from (x + 4) xs) = []"
      by (auto split: if_splits)
    from r have
      "filter (\<lambda>g. g \<noteq> 0) (gaps_from (x + 4) xs) = [] \<or>
       (\<not> True \<and> filter (\<lambda>g. g \<noteq> 0) (gaps_from (x + 4) xs) = [4])"
      by simp
    from Cons.IH [OF this] False p x show ?thesis by simp
  qed
qed

lemma callee_saved_loop_fail:
  "filter (\<lambda>g. g \<noteq> 0) (gaps_from t0 xs) \<noteq> [] \<Longrightarrow>
   pad \<or> filter (\<lambda>g. g \<noteq> 0) (gaps_from t0 xs) \<noteq> [4] \<Longrightarrow>
   \<exists>offset t. callee_saved_loop saved xs t0 pad =
      Inl (DecompFailure (GapInCalleeSavedRegion saved offset t))"
proof (induction xs arbitrary: t0 pad)
  case Nil
  then show ?case by simp
next
  case (Cons x xs)
  show ?case
  proof (cases "x = t0")
    case True
    with Cons.prems have
      "filter (\<lambda>g. g \<noteq> 0) (gaps_from (x + 4) xs) \<noteq> []"
      "pad \<or> filter (\<lambda>g. g \<noteq> 0) (gaps_from (x + 4) xs) \<noteq> [4]"
      by simp_all
    from Cons.IH [OF this] True show ?thesis by simp
  next
    case False
    show ?thesis
    proof (cases "\<not> pad \<and> x = t0 + 4")
      case True
      with False Cons.prems have
        "filter (\<lambda>g. g \<noteq> 0) (gaps_from (x + 4) xs) \<noteq> []"
        by auto
      from Cons.IH [OF this, of True] True False show ?thesis by simp
    next
      case no_pad: False
      with False show ?thesis by auto
    qed
  qed
qed

lemma sorted_hd_last:
  fixes s :: "int list"
  assumes s: "sorted s" and ne: "s \<noteq> []"
  shows "hd s = Min (set s) \<and> last s = Max (set s)"
proof -
  have "hd s = Min (set s)"
    using s ne by (cases s) (auto intro!: Min_eqI [symmetric])
  moreover have "last s = Max (set s)"
  proof (rule Max_eqI [symmetric])
    show "finite (set s)" by simp
    show "last s \<in> set s" using ne by (rule last_in_set)
    fix y assume "y \<in> set s"
    then obtain i where "i < length s" "s ! i = y" by (auto simp: in_set_conv_nth)
    then show "y \<le> last s"
      using s ne by (auto simp: last_conv_nth sorted_iff_nth_mono)
  qed
  ultimately show ?thesis by simp
qed

lemma sort_hd_last:
  fixes xs :: "int list"
  assumes "xs \<noteq> []"
  shows "hd (sort xs) = Min (set xs) \<and> last (sort xs) = Max (set xs)"
proof -
  have "sort xs \<noteq> []"
    using assms by (metis length_sort length_0_conv)
  from sorted_hd_last [OF sorted_sort this] show ?thesis by simp
qed
text \<open>
  C6.  For a non-empty list of save offsets the analyzer sorts it and, when the sorted
  list has no gap between consecutive 4-byte slots or exactly one gap and that gap is 4
  bytes, stores the bounds (lowest offset, highest offset + 4); when there is a second
  gap, or a gap that is not exactly 4 bytes, it raises the decompilation failure.
\<close>

theorem callee_save_region_bounds:
  assumes "callee_saved_offsets \<noteq> []"
  shows "(if internal_gaps (sort callee_saved_offsets) = [] \<or>
             internal_gaps (sort callee_saved_offsets) = [4]
          then compute_callee_save_region callee_saved_offsets info =
                 Inr (info\<lparr>callee_save_reg_region :=
                             (Min (set callee_saved_offsets), Max (set callee_saved_offsets) + 4),
                           subroutine_arg_top :=
                             min (subroutine_arg_top info) (Min (set callee_saved_offsets))\<rparr>)
          else is_gap_failure (compute_callee_save_region callee_saved_offsets info))"
proof -
  let ?s = "sort callee_saved_offsets"
  have ne: "?s \<noteq> []"
    using assms by (metis length_sort length_0_conv)
  have hl: "hd ?s = Min (set callee_saved_offsets)" "last ?s = Max (set callee_saved_offsets)"
    using sort_hd_last [OF assms] by simp_all
  show ?thesis
  proof (cases "internal_gaps ?s = [] \<or> internal_gaps ?s = [4]")
    case True
    then have "callee_saved_loop ?s ?s (hd ?s) False = Inr (last ?s + 4)"
      using callee_saved_loop_ok [of "hd ?s" ?s False ?s] ne
      by (simp add: internal_gaps_def)
    with True assms hl show ?thesis
      by (simp add: compute_callee_save_region_def Let_def)
  next
    case False
    then obtain offset t where
      "callee_saved_loop ?s ?s (hd ?s) False =
         Inl (DecompFailure (GapInCalleeSavedRegion ?s offset t))"
      using callee_saved_loop_fail [of "hd ?s" ?s False ?s]
      by (auto simp: internal_gaps_def)
    with False assms show ?thesis
      by (simp add: compute_callee_save_region_def Let_def is_gap_failure_def)
  qed
qed

theorem callee_save_region_bounds_witness:
  "[20, 16, 28] \<noteq> ([] :: int list) \<and>
   compute_callee_save_region [20, 16, 28] mips_frame =
     Inr (mips_frame\<lparr>callee_save_reg_region := (16, 32), subroutine_arg_top := 16\<rparr>)"
  using callee_save_region_bounds [of "[20, 16, 28]" mips_frame]
  by (simp add: internal_gaps_def mips_frame_def)

lemma compute_callee_save_region_arg_top:
  "compute_callee_save_region offs info = Inr info' \<Longrightarrow> offs \<noteq> [] \<Longrightarrow>
   subroutine_arg_top info' \<le> fst (callee_save_reg_region info')"
  by (auto simp: compute_callee_save_region_def Let_def split: sum.splits)

subsection \<open>Classification of stack offsets\<close>

text \<open>
  C5, as stated, fails: on PPC the slot at \<open>allocated_stack_size + 4\<close>, where the link
  register is saved in the header of the previous frame, satisfies both
  \<open>in_callee_save_reg_region\<close> and \<open>location_above_stack\<close>.
\<close>

theorem stack_predicates_overlap_counterexample:
  "in_callee_save_reg_region ppc_frame 20 \<and> location_above_stack ppc_frame 20"
  by (simp add: in_callee_save_reg_region_def location_above_stack_def ppc_frame_def)

text \<open>
  C5, amended.  For every byte offset \<open>get_stack_var\<close> picks exactly one of the four
  classes, by testing the callee-saved region first, then the area above the frame, then
  the subroutine-argument region, with the local case as the residue.  The predicates
  themselves are pairwise disjoint on a frame whose regions are nested
  (\<open>frame_regions_nested\<close>), except that the callee-saved predicate and the
  above-frame predicate both hold at the PPC link-register slot
  \<open>allocated_stack_size + 4\<close>.
\<close>

theorem stack_classification_partition:
  "(get_stack_var_region info location = CalleeSaveRegRegion \<longleftrightarrow>
      in_callee_save_reg_region info location) \<and>
   (get_stack_var_region info location = AboveStack \<longleftrightarrow>
      \<not> in_callee_save_reg_region info location \<and> location_above_stack info location) \<and>
   (get_stack_var_region info location = SubroutineArgRegion \<longleftrightarrow>
      \<not> in_callee_save_reg_region info location \<and> \<not> location_above_stack info location \<and>
      in_subroutine_arg_region info location) \<and>
   (get_stack_var_region info location = LocalVariable \<longleftrightarrow>
      \<not> in_callee_save_reg_region info location \<and> \<not> location_above_stack info location \<and>
      \<not> in_subroutine_arg_region info location) \<and>
   (frame_regions_nested info \<longrightarrow>
      \<not> (in_subroutine_arg_region info location \<and> location_above_stack info location) \<and>
      \<not> (in_subroutine_arg_region info location \<and> in_callee_save_reg_region info location) \<and>
      (in_callee_save_reg_region info location \<and> location_above_stack info location \<longrightarrow>
         arch info = PPC \<and> location = allocated_stack_size info + 4))"
proof -
  have nested:
    "\<not> (in_subroutine_arg_region info location \<and> location_above_stack info location) \<and>
     \<not> (in_subroutine_arg_region info location \<and> in_callee_save_reg_region info location) \<and>
     (in_callee_save_reg_region info location \<and> location_above_stack info location \<longrightarrow>
        arch info = PPC \<and> location = allocated_stack_size info + 4)"
    if "frame_regions_nested info"
    using that
    by (cases "callee_save_reg_region info")
       (auto simp: frame_regions_nested_def in_subroutine_arg_region_def
          in_callee_save_reg_region_def location_above_stack_def split: if_splits)
  show ?thesis
    using nested by (simp add: get_stack_var_region_def)
qed

theorem stack_classification_partition_witness:
  "frame_regions_nested (mips_frame\<lparr>callee_save_reg_region := (16, 32)\<rparr>) \<and>
   get_stack_var_region (mips_frame\<lparr>callee_save_reg_region := (16, 32)\<rparr>) 20 = CalleeSaveRegRegion \<and>
   get_stack_var_region (mips_frame\<lparr>callee_save_reg_region := (16, 32)\<rparr>) 44 = AboveStack \<and>
   get_stack_var_region (mips_frame\<lparr>callee_save_reg_region := (16, 32)\<rparr>) 8 = SubroutineArgRegion \<and>
   get_stack_var_region (mips_frame\<lparr>callee_save_reg_region := (16, 32)\<rparr>) 36 = LocalVariable \<and>
   \<not> (in_callee_save_reg_region (mips_frame\<lparr>callee_save_reg_region := (16, 32)\<rparr>) 20 \<and>
      location_above_stack (mips_frame\<lparr>callee_save_reg_region := (16, 32)\<rparr>) 20)"
  using stack_classification_partition [of "mips_frame\<lparr>callee_save_reg_region := (16, 32)\<rparr>" 20]
  by (simp add: frame_regions_nested_def mips_frame_def get_stack_var_region_def
      in_callee_save_reg_region_def location_above_stack_def in_subroutine_arg_region_def)

subsection \<open>Names of temporaries\<close>

lemma digit_char_eq_iff: "d < 10 \<Longrightarrow> d' < 10 \<Longrightarrow> digit_char d = digit_char d' \<longleftrightarrow> d = d'"
  unfolding digit_char_def
  by (simp add: char_of_eq_iff take_bit_nat_eq_self)

lemma digit_char_not_underscore: "d < 10 \<Longrightarrow> digit_char d \<noteq> CHR ''_''"
proof
  assume d: "d < 10" and e: "digit_char d = CHR ''_''"
  from e have "(of_char (digit_char d) :: nat) = of_char (CHR ''_'')" by simp
  with d show False
    by (simp add: digit_char_def take_bit_nat_eq_self)
qed

lemma str_nat_small: "n < 10 \<Longrightarrow> str_nat n = [digit_char n]"
  by (subst str_nat.simps) simp

lemma str_nat_big: "\<not> n < 10 \<Longrightarrow> str_nat n = str_nat (n div 10) @ [digit_char (n mod 10)]"
  by (subst str_nat.simps) simp

lemma str_nat_nonempty: "str_nat n \<noteq> []"
  by (subst str_nat.simps) simp

lemma str_nat_no_underscore: "CHR ''_'' \<notin> set (str_nat n)"
proof (induction n rule: str_nat.induct)
  case (1 n)
  show ?case
  proof (cases "n < 10")
    case True
    then show ?thesis
      using digit_char_not_underscore [of n] by (simp add: str_nat_small)
  next
    case False
    then show ?thesis
      using 1 digit_char_not_underscore [of "n mod 10"]
      by (simp add: str_nat_big)
  qed
qed

lemma str_nat_inj: "str_nat m = str_nat n \<Longrightarrow> m = n"
proof (induction m arbitrary: n rule: str_nat.induct)
  case (1 m)
  show ?case
  proof (cases "m < 10")
    case m: True
    show ?thesis
    proof (cases "n < 10")
      case True
      with m "1.prems" show ?thesis
        by (simp add: str_nat_small digit_char_eq_iff)
    next
      case False
      with m "1.prems" have "[digit_char m] = str_nat (n div 10) @ [digit_char (n mod 10)]"
        by (simp add: str_nat_small str_nat_big)
      then show ?thesis using str_nat_nonempty [of "n div 10"] by simp
    qed
  next
    case m: False
    show ?thesis
    proof (cases "n < 10")
      case True
      with m "1.prems" have "str_nat (m div 10) @ [digit_char (m mod 10)] = [digit_char n]"
        by (simp add: str_nat_small str_nat_big)
      then show ?thesis using str_nat_nonempty [of "m div 10"] by simp
    next
      case False
      with m "1.prems" have
        "str_nat (m div 10) @ [digit_char (m mod 10)] = str_nat (n div 10) @ [digit_char (n mod 10)]"
        by (simp add: str_nat_small str_nat_big)
      then have a: "str_nat (m div 10) = str_nat (n div 10)"
        and b: "digit_char (m mod 10) = digit_char (n mod 10)" by simp_all
      from "1.IH" [OF m a] have "m div 10 = n div 10" .
      moreover from b have "m mod 10 = n mod 10" by (simp add: digit_char_eq_iff)
      ultimately show ?thesis by (metis div_mult_mod_eq)
    qed
  qed
qed

lemma str_int_nonneg: "0 \<le> c \<Longrightarrow> str_int c = str_nat (nat c)"
  by (simp add: str_int_def)

lemma str_int_inj: "0 \<le> c \<Longrightarrow> 0 \<le> d \<Longrightarrow> str_int c = str_int d \<Longrightarrow> c = d"
  using str_nat_inj [of "nat c" "nat d"] by (simp add: str_int_nonneg)

lemma str_int_no_underscore: "0 \<le> c \<Longrightarrow> CHR ''_'' \<notin> set (str_int c)"
  by (simp add: str_int_nonneg str_nat_no_underscore)

lemma split_at_first_sep:
  "ys @ a # xs = ys' @ a # xs' \<Longrightarrow> a \<notin> set ys \<Longrightarrow> a \<notin> set ys' \<Longrightarrow>
   ys = ys' \<and> xs = xs'"
proof (induction ys arbitrary: ys')
  case Nil
  then show ?case by (cases ys') auto
next
  case (Cons y ys)
  then show ?case by (cases ys') auto
qed

lemma split_at_last_sep:
  assumes "xs @ a # ys = xs' @ a # ys'" "a \<notin> set ys" "a \<notin> set ys'"
  shows "xs = xs' \<and> ys = ys'"
proof -
  from assms(1) have "rev (xs @ a # ys) = rev (xs' @ a # ys')" by simp
  then have "rev ys @ a # rev xs = rev ys' @ a # rev xs'" by simp
  from split_at_first_sep [OF this] assms(2,3)
  have "rev ys = rev ys' \<and> rev xs = rev xs'" by simp
  then show ?thesis by simp
qed

lemma name_of_count_eq:
  assumes "name_of_count p c = name_of_count q d" "1 \<le> c" "1 \<le> d"
  shows "(p = q \<and> c = d) \<or> (c = 1 \<and> 2 \<le> d \<and> p = q @ ''_'' @ str_int d) \<or>
         (d = 1 \<and> 2 \<le> c \<and> q = p @ ''_'' @ str_int c)"
proof (cases "c > 1")
  case c: True
  show ?thesis
  proof (cases "d > 1")
    case True
    with c assms have "p @ CHR ''_'' # str_int c = q @ CHR ''_'' # str_int d"
      by (simp add: name_of_count_def)
    from split_at_last_sep [OF this] c True
    have "p = q \<and> str_int c = str_int d"
      by (simp add: str_int_no_underscore)
    then show ?thesis using str_int_inj [of c d] c True by auto
  next
    case False
    with c assms show ?thesis by (auto simp: name_of_count_def)
  qed
next
  case c: False
  with assms show ?thesis by (auto simp: name_of_count_def)
qed

lemma counter_of_temp_var:
  "counter_of (snd (temp_var info p)) q =
     (if q = p then counter_of info p + 1 else counter_of info q)"
  by (simp add: temp_var_def counter_of_def Let_def)

lemma fst_temp_var: "fst (temp_var info p) = name_of_count p (counter_of info p + 1)"
  by (simp add: temp_var_def counter_of_def name_of_count_def Let_def)

lemma Var_format_unemitted:
  "\<not> is_emitted (vars s v) \<Longrightarrow> Var_format v s = Inl AssertionError"
  by (simp add: Var_format_def)

lemma Var_format_named:
  "is_emitted (vars s v) \<Longrightarrow> name (vars s v) = Some nm \<Longrightarrow> Var_format v s = Inr (nm, s)"
  by (simp add: Var_format_def)

lemma Var_format_fresh:
  "is_emitted (vars s v) \<Longrightarrow> name (vars s v) = None \<Longrightarrow>
   Var_format v s =
     Inr (name_of_count (prefix (vars s v)) (counter_of (stack_info s) (prefix (vars s v)) + 1),
          s\<lparr>stack_info := snd (temp_var (stack_info s) (prefix (vars s v))),
            vars := (vars s)(v := (vars s v)\<lparr>name :=
              Some (name_of_count (prefix (vars s v))
                     (counter_of (stack_info s) (prefix (vars s v)) + 1))\<rparr>)\<rparr>)"
  by (simp add: Var_format_def fst_temp_var [symmetric] split: prod.splits)

lemma names_valid_step:
  assumes nv: "names_valid V s"
    and ind: "prefixes_independent ((\<lambda>v. prefix (vars s v)) ` V)"
    and v: "v \<in> V" and em: "is_emitted (vars s v)"
  shows "\<exists>nm s'. Var_format v s = Inr (nm, s') \<and> names_valid V s' \<and>
           name (vars s' v) = Some nm \<and>
           (\<forall>w. prefix (vars s' w) = prefix (vars s w) \<and>
                is_emitted (vars s' w) = is_emitted (vars s w)) \<and>
           (\<forall>w. name (vars s w) \<noteq> None \<longrightarrow> name (vars s' w) = name (vars s w)) \<and>
           (name (vars s v) \<noteq> None \<longrightarrow> s' = s)"
proof (cases "name (vars s v)")
  case (Some nm)
  with em nv show ?thesis by (simp add: Var_format_named)
next
  case None
  let ?p = "prefix (vars s v)"
  let ?c = "counter_of (stack_info s) ?p + 1"
  let ?nm = "name_of_count ?p ?c"
  let ?s' = "s\<lparr>stack_info := snd (temp_var (stack_info s) ?p),
            vars := (vars s)(v := (vars s v)\<lparr>name := Some ?nm\<rparr>)\<rparr>"
  have fmt: "Var_format v s = Inr (?nm, ?s')"
    using Var_format_fresh [OF em None] .
  have cnt0: "\<And>p. 0 \<le> counter_of (stack_info s) p"
    using nv by (simp add: names_valid_def)
  have c1: "1 \<le> ?c" using cnt0 [of ?p] by simp
  have old: "\<And>w nm. w \<in> V \<Longrightarrow> name (vars s w) = Some nm \<Longrightarrow>
      \<exists>c. 1 \<le> c \<and> c \<le> counter_of (stack_info s) (prefix (vars s w)) \<and>
          nm = name_of_count (prefix (vars s w)) c"
    using nv by (simp add: names_valid_def)
  have dist: "\<And>u w. u \<in> V \<Longrightarrow> w \<in> V \<Longrightarrow> u \<noteq> w \<Longrightarrow> name (vars s u) \<noteq> None \<Longrightarrow>
      name (vars s u) \<noteq> name (vars s w)"
    using nv by (simp add: names_valid_def)
  have fresh: "name (vars s w) \<noteq> Some ?nm" if w: "w \<in> V" for w
  proof
    assume nm: "name (vars s w) = Some ?nm"
    from old [OF w nm] obtain c where c: "1 \<le> c" "c \<le> counter_of (stack_info s) (prefix (vars s w))"
      and eq: "?nm = name_of_count (prefix (vars s w)) c" by blast
    from name_of_count_eq [OF eq c1 c(1)]
    consider "?p = prefix (vars s w) \<and> ?c = c"
      | "2 \<le> c \<and> ?p = prefix (vars s w) @ ''_'' @ str_int c"
      | "2 \<le> ?c \<and> prefix (vars s w) = ?p @ ''_'' @ str_int ?c" by blast
    then show False
    proof cases
      case 1
      then have pe: "prefix (vars s w) = ?p" by simp
      from 1 have ce: "?c = c" by (rule conjunct2)
      from c(2) have "c \<le> counter_of (stack_info s) ?p" by (simp only: pe)
      with ce show ?thesis by linarith
    next
      case 2
      with ind v w show ?thesis
        unfolding prefixes_independent_def by blast
    next
      case 3
      with ind v w show ?thesis
        unfolding prefixes_independent_def by blast
    qed
  qed
  have nv': "names_valid V ?s'"
    unfolding names_valid_def
  proof (intro conjI allI ballI impI)
    fix p show "0 \<le> counter_of (stack_info ?s') p"
      using cnt0 [of p] cnt0 [of ?p] by (simp add: counter_of_temp_var)
  next
    fix w nm assume w: "w \<in> V" and nm: "name (vars ?s' w) = Some nm"
    show "\<exists>c\<ge>1. c \<le> counter_of (stack_info ?s') (prefix (vars ?s' w)) \<and>
             nm = name_of_count (prefix (vars ?s' w)) c"
    proof (cases "w = v")
      case True
      with nm c1 show ?thesis
        by (auto simp: counter_of_temp_var intro!: exI [of _ ?c])
    next
      case False
      with nm have "name (vars s w) = Some nm" by simp
      from old [OF w this] obtain c where "1 \<le> c"
        "c \<le> counter_of (stack_info s) (prefix (vars s w))"
        "nm = name_of_count (prefix (vars s w)) c" by blast
      with False show ?thesis
        by (auto simp: counter_of_temp_var intro!: exI [of _ c])
    qed
  next
    fix u w assume u: "u \<in> V" and w: "w \<in> V" and ne: "u \<noteq> w"
      and nn: "name (vars ?s' u) \<noteq> None"
    show "name (vars ?s' u) \<noteq> name (vars ?s' w)"
    proof (cases "u = v")
      case True
      with ne fresh [OF w] show ?thesis by auto
    next
      case uv: False
      show ?thesis
      proof (cases "w = v")
        case True
        with uv fresh [OF u] show ?thesis by auto
      next
        case False
        with uv nn dist [OF u w ne] show ?thesis by simp
      qed
    qed
  qed
  show ?thesis
    using fmt nv' None by (intro exI [of _ ?nm] exI [of _ ?s']) simp
qed

lemma format_vars_inv:
  assumes "names_valid V s"
    and "prefixes_independent ((\<lambda>v. prefix (vars s v)) ` V)"
    and "set vs \<subseteq> V" and "\<forall>v\<in>set vs. is_emitted (vars s v)"
  shows "\<exists>nms s'. format_vars vs s = Inr (nms, s') \<and> length nms = length vs \<and>
           names_valid V s' \<and>
           (\<forall>i<length vs. name (vars s' (vs ! i)) = Some (nms ! i)) \<and>
           (\<forall>w. name (vars s w) \<noteq> None \<longrightarrow> name (vars s' w) = name (vars s w)) \<and>
           (\<forall>w. prefix (vars s' w) = prefix (vars s w) \<and>
                is_emitted (vars s' w) = is_emitted (vars s w))"
  using assms
proof (induction vs arbitrary: s)
  case Nil
  then show ?case by simp
next
  case (Cons v vs)
  from Cons.prems have v: "v \<in> V" and em: "is_emitted (vars s v)" by simp_all
  from names_valid_step [OF Cons.prems(1,2) v em]
  obtain nm s1 where f1: "Var_format v s = Inr (nm, s1)" and nv1: "names_valid V s1"
    and n1: "name (vars s1 v) = Some nm"
    and same1: "\<And>w. prefix (vars s1 w) = prefix (vars s w)"
               "\<And>w. is_emitted (vars s1 w) = is_emitted (vars s w)"
    and keep1: "\<And>w. name (vars s w) \<noteq> None \<Longrightarrow> name (vars s1 w) = name (vars s w)"
    by blast
  have ind1: "prefixes_independent ((\<lambda>v. prefix (vars s1 v)) ` V)"
    using Cons.prems(2) by (simp add: same1)
  have sub1: "set vs \<subseteq> V" and em1: "\<forall>v\<in>set vs. is_emitted (vars s1 v)"
    using Cons.prems(3,4) by (simp_all add: same1)
  from Cons.IH [OF nv1 ind1 sub1 em1]
  obtain nms s2 where f2: "format_vars vs s1 = Inr (nms, s2)" and len: "length nms = length vs"
    and nv2: "names_valid V s2"
    and n2: "\<And>i. i < length vs \<Longrightarrow> name (vars s2 (vs ! i)) = Some (nms ! i)"
    and keep2: "\<And>w. name (vars s1 w) \<noteq> None \<Longrightarrow> name (vars s2 w) = name (vars s1 w)"
    and same2: "\<And>w. prefix (vars s2 w) = prefix (vars s1 w)"
               "\<And>w. is_emitted (vars s2 w) = is_emitted (vars s1 w)"
    by blast
  have f: "format_vars (v # vs) s = Inr (nm # nms, s2)"
    using f1 f2 by simp
  have names: "name (vars s2 ((v # vs) ! i)) = Some ((nm # nms) ! i)"
    if "i < length (v # vs)" for i
  proof (cases i)
    case 0
    with n1 keep2 [of v] show ?thesis by simp
  next
    case (Suc k)
    with that n2 [of k] show ?thesis by simp
  qed
  have keep: "name (vars s2 w) = name (vars s w)" if "name (vars s w) \<noteq> None" for w
    using that keep1 [of w] keep2 [of w] by simp
  show ?case
    using f len nv2 names keep same1 same2
    by (intro exI [of _ "nm # nms"] exI [of _ s2]) simp
qed

text \<open>
  C8, amended.  Formatting a \<open>Var\<close> that is not marked emitted is an
  \<open>AssertionError\<close>.  Formatting any sequence of emitted \<open>Var\<close>s of the pool returns a
  name for each, assigned at the first formatting and returned unchanged afterwards (a
  name set before is kept), and two positions of the sequence get the same name exactly
  when they are the same \<open>Var\<close>, provided that no prefix in the pool is another prefix of
  the pool followed by \<open>_k\<close> for a counter \<open>k\<close> from 2 on.
\<close>

theorem var_names_lazy_unique:
  assumes "names_valid (set (temp_vars (stack_info s))) s"
    and "prefixes_independent ((\<lambda>v. prefix (vars s v)) ` set (temp_vars (stack_info s)))"
    and "set vs \<subseteq> set (temp_vars (stack_info s))"
  shows "(\<forall>v. \<not> is_emitted (vars s v) \<longrightarrow> Var_format v s = Inl AssertionError) \<and>
         ((\<forall>v\<in>set vs. is_emitted (vars s v)) \<longrightarrow>
          (\<exists>nms s'. format_vars vs s = Inr (nms, s') \<and> length nms = length vs \<and>
             (\<forall>i<length vs. name (vars s' (vs ! i)) = Some (nms ! i)) \<and>
             (\<forall>i<length vs. \<forall>j<length vs. (nms ! i = nms ! j) = (vs ! i = vs ! j)) \<and>
             (\<forall>w nm. name (vars s w) = Some nm \<longrightarrow> name (vars s' w) = Some nm)))"
proof (intro conjI allI impI)
  fix v assume "\<not> is_emitted (vars s v)"
  then show "Var_format v s = Inl AssertionError" by (rule Var_format_unemitted)
next
  let ?V = "set (temp_vars (stack_info s))"
  assume em: "\<forall>v\<in>set vs. is_emitted (vars s v)"
  from format_vars_inv [OF assms(1,2,3) em]
  obtain nms s' where f: "format_vars vs s = Inr (nms, s')" and len: "length nms = length vs"
    and nv: "names_valid ?V s'"
    and n: "\<And>i. i < length vs \<Longrightarrow> name (vars s' (vs ! i)) = Some (nms ! i)"
    and keep: "\<And>w. name (vars s w) \<noteq> None \<Longrightarrow> name (vars s' w) = name (vars s w)"
    by blast
  have iff: "(nms ! i = nms ! j) = (vs ! i = vs ! j)"
    if i: "i < length vs" and j: "j < length vs" for i j
  proof
    assume e: "nms ! i = nms ! j"
    show "vs ! i = vs ! j"
    proof (rule ccontr)
      assume ne: "vs ! i \<noteq> vs ! j"
      have "vs ! i \<in> ?V" "vs ! j \<in> ?V" using assms(3) i j by auto
      with nv ne n [OF i] have "name (vars s' (vs ! i)) \<noteq> name (vars s' (vs ! j))"
        unfolding names_valid_def by blast
      with n [OF i] n [OF j] e show False by simp
    qed
  next
    assume "vs ! i = vs ! j"
    with n [OF i] n [OF j] show "nms ! i = nms ! j" by simp
  qed
  show "\<exists>nms s'. format_vars vs s = Inr (nms, s') \<and> length nms = length vs \<and>
             (\<forall>i<length vs. name (vars s' (vs ! i)) = Some (nms ! i)) \<and>
             (\<forall>i<length vs. \<forall>j<length vs. (nms ! i = nms ! j) = (vs ! i = vs ! j)) \<and>
             (\<forall>w nm. name (vars s w) = Some nm \<longrightarrow> name (vars s' w) = Some nm)"
    using f len n iff keep
    by (intro exI [of _ nms] exI [of _ s']) simp
qed

lemma char_of_50: "char_of (50::nat) = CHR ''2''"
  by code_simp

lemma str_int_2: "str_int 2 = ''2''"
  by (simp add: str_int_def str_nat_small digit_char_def char_of_50)

text \<open>
  C8, as stated, fails: the per-prefix counter does not separate prefixes.  The second
  \<open>Var\<close> with prefix \<open>temp_a0\<close> and the first with prefix \<open>temp_a0_2\<close> are both named
  \<open>temp_a0_2\<close>.
\<close>

theorem var_names_clash_counterexample:
  "names_of (format_vars [0, 1, 2] clash_state) = Some [''temp_a0'', ''temp_a0_2'', ''temp_a0_2'']"
  by (simp add: names_of_def clash_state_def empty_state_def mips_frame_def Var_format_def
      temp_var_def Let_def str_int_2)

theorem var_names_lazy_unique_witness:
  "names_valid (set (temp_vars (stack_info naming_state))) naming_state \<and>
   prefixes_independent
     ((\<lambda>v. prefix (vars naming_state v)) ` set (temp_vars (stack_info naming_state))) \<and>
   set [0, 1, 0] \<subseteq> set (temp_vars (stack_info naming_state)) \<and>
   Var_format 2 naming_state = Inl AssertionError \<and>
   is_emitted (vars naming_state 0) \<and> is_emitted (vars naming_state 1) \<and>
   (\<exists>nms s'. format_vars [0, 1, 0] naming_state = Inr (nms, s') \<and>
      (\<forall>i<length [0::nat, 1, 0]. \<forall>j<length [0::nat, 1, 0].
          (nms ! i = nms ! j) = ([0::nat, 1, 0] ! i = [0, 1, 0] ! j)))"
proof -
  have h1: "names_valid (set (temp_vars (stack_info naming_state))) naming_state"
    by (simp add: names_valid_def naming_state_def empty_state_def mips_frame_def counter_of_def)
  have h2: "prefixes_independent
     ((\<lambda>v. prefix (vars naming_state v)) ` set (temp_vars (stack_info naming_state)))"
    by (simp add: prefixes_independent_def naming_state_def empty_state_def mips_frame_def)
  have h3: "set [0, 1, 0] \<subseteq> set (temp_vars (stack_info naming_state))"
    by (simp add: naming_state_def empty_state_def mips_frame_def)
  have h4: "\<not> is_emitted (vars naming_state 2)"
    by (simp add: naming_state_def empty_state_def)
  have h5: "\<forall>v\<in>set [0, 1, 0]. is_emitted (vars naming_state v)"
    by (simp add: naming_state_def empty_state_def)
  have h6: "is_emitted (vars naming_state 0) \<and> is_emitted (vars naming_state 1)"
    by (simp add: naming_state_def empty_state_def)
  from var_names_lazy_unique [OF h1 h2 h3] h1 h2 h3 h4 h5 h6 show ?thesis
    by blast
qed

subsection \<open>The expression-sharing protocol\<close>

lemma use_Suc_cases [case_names EvalOnce NaivePhi Other]:
  obtains (EvalOnce) oid w var src eeo tr tp where "e = EvalOnceExpr oid w var src eeo tr tp"
  | (NaivePhi) oid reg node srcs ud where "e = NaivePhiExpr oid reg node srcs ud"
  | (Other) "\<And>n s. use (Suc n) e s = use_each (use n) (dependencies s e) s"
  by (cases e) auto

lemma dependencies_expr_vars: "d \<in> set (dependencies s e) \<Longrightarrow> expr_vars d \<subseteq> expr_vars e"
  by (cases e) (auto split: if_splits)

lemma use_frame_refl: "use_frame s s"
  by (simp add: use_frame_def)

lemma use_frame_trans: "use_frame s s1 \<Longrightarrow> use_frame s1 s2 \<Longrightarrow> use_frame s s2"
  unfolding use_frame_def
  by (auto intro: order_trans)

lemma use_each_frame:
  assumes "\<And>e s s'. f e s = Some s' \<Longrightarrow> use_frame s s'"
  shows "use_each f es s = Some s' \<Longrightarrow> use_frame s s'"
proof (induction es arbitrary: s)
  case Nil
  then show ?case by (simp add: use_frame_refl)
next
  case (Cons e es)
  then show ?case
    by (auto split: option.splits intro: use_frame_trans assms)
qed

lemma use_frame_set_is_used: "use_frame s (set_is_used oid s)"
  by (simp add: use_frame_def set_is_used_def)

lemma use_frame_set_is_emitted: "use_frame s (set_is_emitted var s)"
  by (simp add: use_frame_def set_is_emitted_def)

lemma use_preserves: "use n e s = Some s' \<Longrightarrow> use_frame s s'"
proof (induction n arbitrary: e s s')
  case 0
  then show ?case by simp
next
  case (Suc n)
  show ?case
  proof (cases e rule: use_Suc_cases)
    case (EvalOnce oid w var src eeo tr tp)
    with Suc.prems obtain s1 where s': "s' = set_is_used oid s1"
      and s1: "use n w s = Some s1 \<or> s1 = s \<or> s1 = set_is_emitted var s"
      by (auto split: if_splits)
    from s1 have "use_frame s s1"
      using Suc.IH use_frame_refl use_frame_set_is_emitted by blast
    with s' show ?thesis
      using use_frame_set_is_used use_frame_trans by blast
  next
    case (NaivePhi oid reg node srcs ud)
    define s2 where "s2 = (let s1 = (if num_usages s oid = 0
                then s\<lparr>used_naive_phis := used_naive_phis s @ [e]\<rparr> else s)
       in s1\<lparr>num_usages := (num_usages s1)(oid := num_usages s1 oid + 1)\<rparr>)"
    have f2: "use_frame s s2"
      by (simp add: s2_def use_frame_def Let_def)
    from Suc.prems NaivePhi have "s' = s2 \<or> (\<exists>r. use n r s2 = Some s')"
      by (auto simp: s2_def Let_def split: option.splits)
    with f2 show ?thesis
      using Suc.IH use_frame_trans by blast
  next
    case Other
    with Suc.prems have "use_each (use n) (dependencies s e) s = Some s'" by simp
    then show ?thesis
      using use_each_frame [of "use n"] Suc.IH by blast
  qed
qed

lemma store_vars_frame: "use_frame s s' \<Longrightarrow> store_vars s' = store_vars s"
  by (simp add: use_frame_def store_vars_def)

lemma replacement_in_store_vars: "replacement_expr s p = Some r \<Longrightarrow> expr_vars r \<subseteq> store_vars s"
  by (auto simp: store_vars_def split: option.splits intro!: exI [of _ p])

lemma use_each_emitted:
  assumes IH: "\<And>d s s'. use n d s = Some s' \<Longrightarrow> v \<notin> expr_vars d \<Longrightarrow> v \<notin> store_vars s \<Longrightarrow>
                 is_emitted (vars s' v) = is_emitted (vars s v)"
  shows "use_each (use n) ds s = Some s' \<Longrightarrow> \<forall>d\<in>set ds. v \<notin> expr_vars d \<Longrightarrow>
         v \<notin> store_vars s \<Longrightarrow> is_emitted (vars s' v) = is_emitted (vars s v)"
proof (induction ds arbitrary: s)
  case Nil
  then show ?case by simp
next
  case (Cons d ds)
  from Cons.prems(1) obtain s1 where d: "use n d s = Some s1"
    and r: "use_each (use n) ds s1 = Some s'"
    by (auto split: option.splits)
  from use_preserves [OF d] have "store_vars s1 = store_vars s" by (rule store_vars_frame)
  with Cons.prems have "v \<notin> store_vars s1" by simp
  from Cons.IH [OF r _ this] Cons.prems IH [OF d] show ?case by simp
qed

lemma use_emitted_elsewhere:
  "use n e s = Some s' \<Longrightarrow> v \<notin> expr_vars e \<Longrightarrow> v \<notin> store_vars s \<Longrightarrow>
   is_emitted (vars s' v) = is_emitted (vars s v)"
proof (induction n arbitrary: e s s')
  case 0
  then show ?case by simp
next
  case (Suc n)
  show ?case
  proof (cases e rule: use_Suc_cases)
    case (EvalOnce oid w var src eeo tr tp)
    with Suc.prems have v: "v \<noteq> var" "v \<notin> expr_vars w" by simp_all
    from Suc.prems EvalOnce obtain s1 where s': "s' = set_is_used oid s1"
      and s1: "use n w s = Some s1 \<or> s1 = s \<or> s1 = set_is_emitted var s"
      by (auto split: if_splits)
    from s1 have "is_emitted (vars s1 v) = is_emitted (vars s v)"
      using Suc.IH [of w s s1] v Suc.prems(3) by (auto simp: set_is_emitted_def)
    with s' show ?thesis by (simp add: set_is_used_def)
  next
    case (NaivePhi oid reg node srcs ud)
    define s2 where "s2 = (let s1 = (if num_usages s oid = 0
                then s\<lparr>used_naive_phis := used_naive_phis s @ [e]\<rparr> else s)
       in s1\<lparr>num_usages := (num_usages s1)(oid := num_usages s1 oid + 1)\<rparr>)"
    have v2: "vars s2 = vars s" and r2: "replacement_expr s2 = replacement_expr s"
      by (simp_all add: s2_def Let_def)
    then have sv: "store_vars s2 = store_vars s" by (simp add: store_vars_def)
    from Suc.prems NaivePhi have
      "(s' = s2 \<and> replacement_expr s2 oid = None) \<or>
       (\<exists>r. replacement_expr s2 oid = Some r \<and> use n r s2 = Some s')"
      by (auto simp: s2_def Let_def split: option.splits)
    then show ?thesis
    proof
      assume "s' = s2 \<and> replacement_expr s2 oid = None"
      with v2 show ?thesis by simp
    next
      assume "\<exists>r. replacement_expr s2 oid = Some r \<and> use n r s2 = Some s'"
      then obtain r where r: "replacement_expr s2 oid = Some r" and u: "use n r s2 = Some s'"
        by blast
      from replacement_in_store_vars [OF r] sv Suc.prems(3) have "v \<notin> expr_vars r" by auto
      from Suc.IH [OF u this] sv Suc.prems(3) v2 show ?thesis by simp
    qed
  next
    case Other
    with Suc.prems have u: "use_each (use n) (dependencies s e) s = Some s'" by simp
    have "\<forall>d\<in>set (dependencies s e). v \<notin> expr_vars d"
      using dependencies_expr_vars [of _ s e] Suc.prems(2) by blast
    from use_each_emitted [of n v, OF Suc.IH u this Suc.prems(3)] show ?thesis by simp
  qed
qed

lemma use_each_mono:
  assumes "\<And>e s s'. f e s = Some s' \<Longrightarrow> g e s = Some s'"
  shows "use_each f es s = Some s' \<Longrightarrow> use_each g es s = Some s'"
  by (induction es arbitrary: s) (auto split: option.splits dest: assms)

lemma use_fuel_Suc: "use n e s = Some s' \<Longrightarrow> use (Suc n) e s = Some s'"
proof (induction n arbitrary: e s s')
  case 0
  then show ?case by simp
next
  case (Suc n)
  show ?case
  proof (cases e rule: use_Suc_cases)
    case (EvalOnce oid w var src eeo tr tp)
    with Suc.prems Suc.IH [of w s] show ?thesis
      by (auto split: if_splits)
  next
    case (NaivePhi oid reg node srcs ud)
    with Suc.prems Suc.IH show ?thesis
      by (auto simp: Let_def split: option.splits if_splits)
  next
    case Other
    with Suc.prems have "use_each (use n) (dependencies s e) s = Some s'" by simp
    then have "use_each (use (Suc n)) (dependencies s e) s = Some s'"
      by (rule use_each_mono [rotated]) (rule Suc.IH)
    with Other show ?thesis by simp
  qed
qed

lemma use_fuel_mono: "use n e s = Some s' \<Longrightarrow> n \<le> m \<Longrightarrow> use m e s = Some s'"
  by (induction m) (auto simp: le_Suc_eq dest: use_fuel_Suc)

lemma use_each_returns:
  assumes "\<And>d s. d \<in> set ds \<Longrightarrow> replacement_expr s = (\<lambda>_. None) \<Longrightarrow> \<exists>s'. f d s = Some s'"
    and "\<And>d s s'. f d s = Some s' \<Longrightarrow> use_frame s s'"
  shows "replacement_expr s = (\<lambda>_. None) \<Longrightarrow> \<exists>s'. use_each f ds s = Some s'"
  using assms(1)
proof (induction ds arbitrary: s)
  case Nil
  then show ?case by simp
next
  case (Cons d ds)
  from Cons.prems(2) [of d s] Cons.prems(1) obtain s1 where d: "f d s = Some s1" by auto
  from assms(2) [OF d] Cons.prems(1) have "replacement_expr s1 = (\<lambda>_. None)"
    by (simp add: use_frame_def)
  from Cons.IH [OF this] Cons.prems(2) obtain s' where "use_each f ds s1 = Some s'"
    by auto
  with d show ?case by simp
qed

lemma use_returns:
  "replacement_expr s = (\<lambda>_. None) \<Longrightarrow> size e < n \<Longrightarrow> \<exists>s'. use n e s = Some s'"
proof (induction n arbitrary: e s)
  case 0
  then show ?case by simp
next
  case (Suc n)
  show ?case
  proof (cases e rule: use_Suc_cases)
    case (EvalOnce oid w var src eeo tr tp)
    with Suc.prems have "size w < n" by simp
    from Suc.IH [OF Suc.prems(1) this] EvalOnce show ?thesis by auto
  next
    case (NaivePhi oid reg node srcs ud)
    with Suc.prems show ?thesis by (simp add: Let_def)
  next
    case Other
    have "\<exists>s'. use_each (use n) (dependencies s e) s = Some s'"
    proof (rule use_each_returns [OF _ _ Suc.prems(1)])
      fix d and s0 :: State
      assume "d \<in> set (dependencies s e)" "replacement_expr s0 = (\<lambda>_. None)"
      with dependencies_size [of d s e] Suc.prems(2) show "\<exists>s'. use n d s0 = Some s'"
        using Suc.IH [of s0 d] by simp
    next
      fix d and s0 s' :: State assume "use n d s0 = Some s'"
      then show "use_frame s0 s'" by (rule use_preserves)
    qed
    with Other show ?thesis by simp
  qed
qed

text \<open>
  C9.  A second \<open>force()\<close> returns the state reached by the first, unchanged; on a
  trivial wrapper \<open>force()\<close> returns the state it was given, so it emits nothing; and
  the first \<open>force()\<close> returns whenever the fuel exceeds the size of the expression and
  no phi has a replacement yet.
\<close>

theorem force_idempotent:
  assumes e: "e = EvalOnceExpr oid w var src eeo trivial transparent"
  shows "(force n e s = Some s' \<longrightarrow> force m e s' = Some s') \<and>
         (trivial \<longrightarrow> force n e s = Some s) \<and>
         (replacement_expr s = (\<lambda>_. None) \<and> size e < n \<longrightarrow> (\<exists>s1. force n e s = Some s1))"
proof (intro conjI impI)
  assume f: "force n e s = Some s'"
  show "force m e s' = Some s'"
  proof (cases "\<not> forced_emit s oid \<and> \<not> trivial")
    case False
    with f e have "s' = s" by auto
    with False e show ?thesis by auto
  next
    case True
    let ?s0 = "set_is_emitted var (set_forced_emit oid s)"
    from f e True obtain s1 where u1: "use n e ?s0 = Some s1" and u2: "use n e s1 = Some s'"
      by (auto split: option.splits)
    have "forced_emit ?s0 oid" by (simp add: set_is_emitted_def set_forced_emit_def)
    moreover from use_preserves [OF u1] use_preserves [OF u2]
    have "forced_emit s' = forced_emit ?s0" by (simp add: use_frame_def)
    ultimately have "forced_emit s' oid" by simp
    with e show ?thesis by simp
  qed
next
  assume trivial
  with e show "force n e s = Some s" by simp
next
  assume a: "replacement_expr s = (\<lambda>_. None) \<and> size e < n"
  show "\<exists>s1. force n e s = Some s1"
  proof (cases "\<not> forced_emit s oid \<and> \<not> trivial")
    case False
    with e show ?thesis by auto
  next
    case True
    let ?s0 = "set_is_emitted var (set_forced_emit oid s)"
    have r0: "replacement_expr ?s0 = (\<lambda>_. None)"
      using a by (simp add: set_is_emitted_def set_forced_emit_def)
    from use_returns [OF r0, of e n] a obtain s1 where u1: "use n e ?s0 = Some s1" by auto
    from use_preserves [OF u1] r0 have "replacement_expr s1 = (\<lambda>_. None)"
      by (simp add: use_frame_def)
    from use_returns [OF this, of e n] a obtain s2 where "use n e s1 = Some s2" by auto
    with u1 True e show ?thesis by simp
  qed
qed

theorem force_idempotent_witness:
  "opaque_wrapper = EvalOnceExpr 0 (LocalVar 8) 0 None False False False \<and>
   replacement_expr empty_state = (\<lambda>_. None) \<and> size opaque_wrapper < 3 \<and>
   (\<exists>s'. force 3 opaque_wrapper empty_state = Some s' \<and> force 3 opaque_wrapper s' = Some s') \<and>
   force 3 (EvalOnceExpr 1 (Literal 0) 1 None False True True) empty_state = Some empty_state"
proof -
  have h: "opaque_wrapper = EvalOnceExpr 0 (LocalVar 8) 0 None False False False"
    by (simp add: opaque_wrapper_def)
  have r: "replacement_expr empty_state = (\<lambda>_. None)" by (simp add: empty_state_def)
  have sz: "size opaque_wrapper < 3" by (simp add: opaque_wrapper_def)
  from force_idempotent [OF h, of 3 empty_state] r sz
  obtain s1 where f1: "force 3 opaque_wrapper empty_state = Some s1" by blast
  from force_idempotent [OF h, of 3 empty_state s1 3] f1
  have "force 3 opaque_wrapper s1 = Some s1" by blast
  moreover from force_idempotent
    [where e = "EvalOnceExpr 1 (Literal 0) 1 None False True True" and trivial = True
       and n = 3 and s = empty_state, OF refl]
  have "force 3 (EvalOnceExpr 1 (Literal 0) 1 None False True True) empty_state = Some empty_state"
    by blast
  ultimately show ?thesis using f1 h r sz by blast
qed

text \<open>
  C1, as stated, fails for transparent wrappers: a wrapper built as transparent around a
  local variable is used twice and its \<open>Var\<close> is still not marked for emission.
\<close>

theorem transparent_second_use_counterexample:
  "(case use 2 transparent_wrapper empty_state of
      None \<Rightarrow> None
    | Some s1 \<Rightarrow> map_option (\<lambda>s2. is_emitted (vars s2 0)) (use 2 transparent_wrapper s1))
   = Some False"
  by (simp add: transparent_wrapper_def empty_state_def numeral_2_eq_2 set_is_used_def)

text \<open>
  C1, amended.  Let the \<open>Var\<close> of an \<open>EvalOnceExpr\<close> be unemitted and back no other
  \<open>EvalOnceExpr\<close> inside the wrapped expression or inside a phi replacement.  A first
  \<open>use()\<close> (the wrapper not yet used, or trivial or transparent) leaves the \<open>Var\<close>
  unemitted and sets \<open>is_used\<close>; it is the \<open>use()\<close> of the wrapped expression
  followed by setting \<open>is_used\<close>, except for a wrapper that is neither trivial nor
  transparent and is emitted exactly once, which only sets \<open>is_used\<close>.  For a wrapper
  that is neither trivial nor transparent the next \<open>use()\<close> returns, forwards nothing
  and marks the \<open>Var\<close> emitted, so that the wrapper uses its variable from then on.
  A trivial or transparent wrapper forwards the second \<open>use()\<close> to the wrapped
  expression as well and its \<open>Var\<close> stays unemitted; a non-trivial one becomes opaque
  only through \<open>force()\<close>, which (on a wrapper not forced before) marks the \<open>Var\<close>
  emitted.
\<close>

theorem eval_once_use_protocol:
  assumes e: "e = EvalOnceExpr oid w var src eeo trivial transparent"
    and fresh: "var \<notin> expr_vars w" "var \<notin> store_vars s" "\<not> is_emitted (vars s var)"
    and first: "\<not> is_used s oid \<or> trivial \<or> transparent"
    and u1: "use n e s = Some s1"
  shows "\<not> is_emitted (vars s1 var) \<and> is_used s1 oid \<and>
         (\<exists>k s0. n = Suc k \<and> s1 = set_is_used oid s0 \<and>
            (if trivial \<or> transparent \<or> \<not> eeo then use k w s = Some s0 else s0 = s)) \<and>
         (\<not> trivial \<and> \<not> transparent \<and> 0 < m \<longrightarrow>
            use m e s1 = Some (set_is_used oid (set_is_emitted var s1)) \<and>
            (\<exists>s2. use m e s1 = Some s2 \<and> is_emitted (vars s2 var) \<and> uses_var s2 e)) \<and>
         ((trivial \<or> transparent) \<and> use m e s1 = Some s2 \<longrightarrow>
            \<not> is_emitted (vars s2 var) \<and>
            (\<exists>j s0. m = Suc j \<and> use j w s1 = Some s0 \<and> s2 = set_is_used oid s0)) \<and>
         (\<not> trivial \<and> \<not> forced_emit s oid \<and> force m e s1 = Some s3 \<longrightarrow>
            is_emitted (vars s3 var) \<and> uses_var s3 e)"
proof -
  from u1 obtain k where n: "n = Suc k" by (cases n) auto
  from u1 e n first fresh(3) obtain s0 where s1: "s1 = set_is_used oid s0"
    and s0: "if trivial \<or> transparent \<or> \<not> eeo then use k w s = Some s0 else s0 = s"
    by (auto split: if_splits)
  from s0 have s0': "use k w s = Some s0 \<or> s0 = s"
    by (auto split: if_splits)
  from s0' have em0: "\<not> is_emitted (vars s0 var)"
    using use_emitted_elsewhere [of k w s s0 var] fresh by auto
  with s1 have em1: "\<not> is_emitted (vars s1 var)" and used1: "is_used s1 oid"
    by (simp_all add: set_is_used_def)
  from n s1 s0 have fwd: "\<exists>k s0. n = Suc k \<and> s1 = set_is_used oid s0 \<and>
            (if trivial \<or> transparent \<or> \<not> eeo then use k w s = Some s0 else s0 = s)"
    by blast
  have sv1: "var \<notin> store_vars s1"
    using store_vars_frame [OF use_preserves [OF u1]] fresh(2) by simp
  have opaque: "use m e s1 = Some (set_is_used oid (set_is_emitted var s1)) \<and>
      (\<exists>s2. use m e s1 = Some s2 \<and> is_emitted (vars s2 var) \<and> uses_var s2 e)"
    if "\<not> trivial \<and> \<not> transparent \<and> 0 < m"
  proof -
    from that obtain j where "m = Suc j" by (cases m) auto
    with that used1 e show ?thesis
      by (simp add: set_is_used_def set_is_emitted_def)
  qed
  have transp: "\<not> is_emitted (vars s2 var) \<and>
      (\<exists>j s0. m = Suc j \<and> use j w s1 = Some s0 \<and> s2 = set_is_used oid s0)"
    if t: "(trivial \<or> transparent) \<and> use m e s1 = Some s2"
  proof -
    from t obtain j where m: "m = Suc j" by (cases m) auto
    from t e m em1 obtain s0' where s2: "s2 = set_is_used oid s0'"
      and s0': "use j w s1 = Some s0'"
      by (auto split: if_splits)
    from use_emitted_elsewhere [OF s0' fresh(1) sv1] em1 s2 have "\<not> is_emitted (vars s2 var)"
      by (simp add: set_is_used_def)
    with m s2 s0' show ?thesis by blast
  qed
  have forced: "is_emitted (vars s3 var) \<and> uses_var s3 e"
    if f: "\<not> trivial \<and> \<not> forced_emit s oid \<and> force m e s1 = Some s3"
  proof -
    have "forced_emit s1 = forced_emit s"
      using use_preserves [OF u1] by (simp add: use_frame_def)
    with f have False: "\<not> forced_emit s1 oid" by simp
    let ?s0 = "set_is_emitted var (set_forced_emit oid s1)"
    from f e False obtain sa where ua: "use m e ?s0 = Some sa" and ub: "use m e sa = Some s3"
      by (auto split: option.splits)
    have "is_emitted (vars ?s0 var)" by (simp add: set_is_emitted_def set_forced_emit_def)
    with use_preserves [OF ua] use_preserves [OF ub] have "is_emitted (vars s3 var)"
      by (simp add: use_frame_def)
    with f e show ?thesis by simp
  qed
  show ?thesis using em1 used1 fwd opaque transp forced by blast
qed

theorem eval_once_use_protocol_witness:
  "0 \<notin> expr_vars (LocalVar 8) \<and> 0 \<notin> store_vars empty_state \<and>
   \<not> is_emitted (vars empty_state 0) \<and> \<not> is_used empty_state 0 \<and>
   use 2 opaque_wrapper empty_state = Some (set_is_used 0 empty_state) \<and>
   \<not> is_emitted (vars (set_is_used 0 empty_state) 0) \<and>
   (\<exists>s2. use 2 opaque_wrapper (set_is_used 0 empty_state) = Some s2 \<and>
      is_emitted (vars s2 0)) \<and>
   (\<exists>s1 s2. use 2 phi_wrapper empty_state = Some s1 \<and> use 2 phi_wrapper s1 = Some s2 \<and>
      num_usages s1 7 = 1 \<and> num_usages s2 7 = 2 \<and>
      \<not> is_emitted (vars s1 0) \<and> \<not> is_emitted (vars s2 0))"
proof -
  have h: "opaque_wrapper = EvalOnceExpr 0 (LocalVar 8) 0 None False False False"
    by (simp add: opaque_wrapper_def)
  have f1: "0 \<notin> expr_vars (LocalVar 8)" by simp
  have f2: "0 \<notin> store_vars empty_state" by (simp add: store_vars_def empty_state_def)
  have f3: "\<not> is_emitted (vars empty_state 0)" by (simp add: empty_state_def)
  have f4: "\<not> is_used empty_state 0" by (simp add: empty_state_def)
  then have f4': "\<not> is_used empty_state 0 \<or> False \<or> False" by simp
  have u: "use 2 opaque_wrapper empty_state = Some (set_is_used 0 empty_state)"
    by (simp add: opaque_wrapper_def empty_state_def numeral_2_eq_2)
  have two: "(0::nat) < 2" by simp
  from eval_once_use_protocol [OF h f1 f2 f3 f4' u, of 2 empty_state empty_state] two
  have a: "\<not> is_emitted (vars (set_is_used 0 empty_state) 0) \<and>
        (\<exists>s2. use 2 opaque_wrapper (set_is_used 0 empty_state) = Some s2 \<and>
           is_emitted (vars s2 0))"
    by blast
  have g1: "0 \<notin> expr_vars (NaivePhiExpr 7 ''v0'' 3 [None, None] True)" by simp
  have g4: "\<not> is_used empty_state 0 \<or> False \<or> True" by simp
  let ?p = "NaivePhiExpr 7 ''v0'' 3 [None, None] True"
  obtain s1 where v1: "use 2 phi_wrapper empty_state = Some s1"
    by (simp add: phi_wrapper_def empty_state_def numeral_2_eq_2 Let_def)
  have r0: "replacement_expr empty_state 7 = None" "num_usages empty_state 7 = 0"
    by (simp_all add: empty_state_def)
  have p1: "\<And>s s'. use (Suc 0) ?p s = Some s' \<Longrightarrow> replacement_expr s 7 = None \<Longrightarrow>
              num_usages s' 7 = num_usages s 7 + 1 \<and> replacement_expr s' 7 = None"
    by (auto simp: Let_def split: if_splits)
  have t1: "\<not> is_emitted (vars s1 0) \<and>
     (\<exists>k s0. 2 = Suc k \<and> s1 = set_is_used 0 s0 \<and> use k ?p empty_state = Some s0)"
    using eval_once_use_protocol [OF phi_wrapper_def g1 f2 f3 g4 v1, of 2 empty_state empty_state]
    by simp
  then obtain s0 where k: "s1 = set_is_used 0 s0" "use (Suc 0) ?p empty_state = Some s0"
    by auto
  from p1 [OF k(2) r0(1)] r0(2) k(1) have n1: "num_usages s1 7 = 1" "replacement_expr s1 7 = None"
    by (simp_all add: set_is_used_def)
  have p2: "\<And>s. replacement_expr s 7 = None \<Longrightarrow> \<exists>s'. use 2 phi_wrapper s = Some s'"
    by (simp add: phi_wrapper_def numeral_2_eq_2 Let_def)
  from p2 [OF n1(2)] obtain s2 where v2: "use 2 phi_wrapper s1 = Some s2"
    by blast
  have t2: "\<not> is_emitted (vars s2 0) \<and>
     (\<exists>j s0. 2 = Suc j \<and> use j ?p s1 = Some s0 \<and> s2 = set_is_used 0 s0)"
    using eval_once_use_protocol [OF phi_wrapper_def g1 f2 f3 g4 v1, of 2 s2 empty_state] v2
    by simp
  then obtain s0' where j: "use (Suc 0) ?p s1 = Some s0'" "s2 = set_is_used 0 s0'"
    by auto
  from p1 [OF j(1) n1(2)] n1(1) j(2) have n2: "num_usages s2 7 = 2"
    by (simp add: set_is_used_def)
  from t1 t2 have e1: "\<not> is_emitted (vars s1 0)" and e2: "\<not> is_emitted (vars s2 0)"
    by simp_all
  from a f1 f2 f3 f4 u v1 v2 n1 n2 e1 e2 show ?thesis by blast
qed

subsection \<open>The symbolic register state\<close>

lemma str_int_7: "str_int 7 = ''7''"
proof -
  have "char_of (55::nat) = CHR ''7''" by code_simp
  then show ?thesis by (simp add: str_int_def str_nat_small digit_char_def)
qed

lemma prevent_later_uses_active:
  "prevent_later_uses s f rg = Inr rg' \<Longrightarrow> active_instr rg' = active_instr rg"
  by (auto simp: prevent_later_uses_def split: if_splits)

lemma eval_once_active:
  assumes "eval_once fuel env e eeo t reg source ns s = Some (r, ns', s')"
  shows "active_instr (regs ns') = active_instr (regs ns)"
  using assms prevent_later_uses_active
  unfolding eval_once_def Let_def prevent_later_var_uses_def
  by (auto split: if_splits option.splits sum.splits prod.splits)

lemma evaluate_instructions_append:
  "evaluate_instructions env irn (pre @ post) ns s =
     (case evaluate_instructions env irn pre ns s of
        None \<Rightarrow> None
      | Some (Some err, ns', s') \<Rightarrow> Some (Some err, ns', s')
      | Some (None, ns', s') \<Rightarrow> evaluate_instructions env irn post ns' s')"
  by (induction pre arbitrary: ns s) (auto split: option.splits)

lemma with_current_instr_idle:
  "with_current_instr env irn instr ns s = Some (None, ns', s') \<Longrightarrow> active_instr (regs ns') = None"
  by (auto simp: with_current_instr_def split: if_splits option.splits)

lemma evaluate_instructions_idle:
  "evaluate_instructions env irn instrs ns s = Some (None, ns', s') \<Longrightarrow>
   active_instr (regs ns) = None \<Longrightarrow> active_instr (regs ns') = None"
proof (induction instrs arbitrary: ns s)
  case Nil
  then show ?case by simp
next
  case (Cons instr rest)
  from Cons.prems(1) obtain ns1 s1 where
    w: "with_current_instr env irn instr ns s = Some (None, ns1, s1)" and
    r: "evaluate_instructions env irn rest ns1 s1 = Some (None, ns', s')"
    by (auto split: option.splits)
  from Cons.IH [OF r with_current_instr_idle [OF w]] show ?case .
qed

lemma set_reg_real_undeclared:
  assumes a: "active_instr (regs ns) = Some instr" and o: "Reg key \<notin> set (outputs instr)"
    and z: "key \<noteq> ''zero''"
    and e: "eval_once fuel env uw_expr emit_exactly_once
               (case transparent of
                  None \<Rightarrow> should_wrap_transparently (cast_keeps_float env) uw_expr
                | Some t \<Rightarrow> t) key (Some instr) ns s = Some (Inr wrapper, ns1, s1)"
  shows "set_reg_real fuel env key uw_expr transparent emit_exactly_once fn_return ns s =
           Some (Inl (DecompFailure (UndeclaredWrite key)), ns1, s1)"
proof -
  from eval_once_active [OF e] a have "active_instr (regs ns1) = Some instr" by simp
  with o z have "set_reg_real_store fuel key wrapper fn_return ns1 s1 =
                   Some (Inl (DecompFailure (UndeclaredWrite key)))"
    by (simp add: set_reg_real_store_def set_with_meta_def)
  with a e show ?thesis
    by (simp add: set_reg_real_def)
qed

lemma instr_failure_body:
  assumes idle: "active_instr (regs nsi) = None"
    and pre: "evaluate_instructions env is_return_node pre nsi si = Some (None, nsa, sa)"
    and g1: "\<not> (is_return instr \<and> \<not> is_return_node)"
    and g2: "\<not> (is_conditional instr \<and> \<not> (branch_condition nsa = None \<and> switch_control nsa = None))"
    and fn: "eval_fn env instr = Some f"
    and f: "f (nsa\<lparr>regs := (regs nsa)\<lparr>active_instr := Some instr\<rparr>,
                 node_in_pattern := instr_in_pattern instr\<rparr>) sa = Some (Some err, nsb, sb)"
  shows "translate_node_body fuel env is_return_node (pre @ instr # post) nsi si =
              Some (Inl (InstrProcessingFailure instr err),
                    nsb\<lparr>regs := (regs nsb)\<lparr>active_instr := None\<rparr>, node_in_pattern := False\<rparr>, sb)"
proof -
  let ?nsa = "nsa\<lparr>regs := (regs nsa)\<lparr>active_instr := Some instr\<rparr>,
                 node_in_pattern := instr_in_pattern instr\<rparr>"
  have ia: "active_instr (regs nsa) = None"
    using evaluate_instructions_idle [OF pre idle] .
  have "evaluate_instruction env is_return_node instr ?nsa sa = Some (Some err, nsb, sb)"
    using g1 g2 fn f by (auto simp: evaluate_instruction_def)
  with ia have "with_current_instr env is_return_node instr nsa sa =
      Some (Some (InstrProcessingFailure instr err),
            nsb\<lparr>regs := (regs nsb)\<lparr>active_instr := None\<rparr>, node_in_pattern := False\<rparr>, sb)"
    by (simp add: with_current_instr_def)
  then have "evaluate_instructions env is_return_node (pre @ instr # post) nsi si =
      Some (Some (InstrProcessingFailure instr err),
            nsb\<lparr>regs := (regs nsb)\<lparr>active_instr := None\<rparr>, node_in_pattern := False\<rparr>, sb)"
    using pre by (simp add: evaluate_instructions_append)
  then show ?thesis
    by (simp add: translate_node_body_def)
qed

lemma faulty_write:
  "\<exists>nsb sb. the (eval_fn faulty_env addu_instr)
      (idle_state\<lparr>regs := (regs idle_state)\<lparr>active_instr := Some addu_instr\<rparr>,
                   node_in_pattern := instr_in_pattern addu_instr\<rparr>) empty_state =
     Some (Some (DecompFailure (UndeclaredWrite ''a0'')), nsb, sb)"
  by (simp add: faulty_env_def plain_env_def idle_state_def regs_idle_def addu_instr_def
      set_reg_real_def eval_once_def get_planned_var_def empty_state_def mips_frame_def
      new_Var_def new_EvalOnceExpr_def temp_name_for_def Let_def set_reg_real_store_def
      set_with_meta_def)

text \<open>
  C3, as stated, fails in both directions.  Inside \<open>addu $v0, $a0, $a1\<close>, reading
  \<open>$v0\<close>, which is not among the inputs, returns an \<open>ErrorExpr\<close> value and raises
  nothing.  And when the semantics of that instruction writes \<open>$a0\<close>, which is not among
  the outputs, the exception is caught by \<open>translate_block\<close>, which returns a
  \<open>BlockInfo\<close> for the node that holds the error as comments.
\<close>

theorem undeclared_access_counterexample:
  "RegInfo_getitem 1 regs_in_addu ''v0'' empty_state =
     Some (Inr (ErrorExpr 100 (Some ''Read from unset register $v0 on line 7''),
                regs_in_addu, empty_state\<lparr>next_oid := 101\<rparr>)) \<and>
   (case translate_block 3 faulty_env False [addu_instr] idle_state empty_state of
      Some (Inr block_info, ns, s) \<Rightarrow> Some (block_to_write block_info)
    | _ \<Rightarrow> None) =
   Some [CommentStmt ''Error: Undeclared write to $a0'',
         CommentStmt ''At instruction: instruction'']"
proof -
  have r: "RegInfo_getitem 1 regs_in_addu ''v0'' empty_state =
     Some (Inr (ErrorExpr 100 (Some ''Read from unset register $v0 on line 7''),
                regs_in_addu, empty_state\<lparr>next_oid := 101\<rparr>))"
    by (simp add: RegInfo_getitem_def regs_in_addu_def addu_instr_def empty_state_def
        new_ErrorExpr_def get_instruction_lineno_def str_int_7 Register_str_def)
  have e: "eval_fn faulty_env addu_instr = Some (the (eval_fn faulty_env addu_instr))"
    by (simp add: faulty_env_def)
  have i: "active_instr (regs idle_state) = None" "branch_condition idle_state = None"
    "switch_control idle_state = None"
    by (simp_all add: idle_state_def regs_idle_def)
  have a: "\<not> is_return addu_instr" "\<not> is_conditional addu_instr"
    by (simp_all add: addu_instr_def)
  have t: "error_text faulty_env (DecompFailure (UndeclaredWrite ''a0'')) = ''Undeclared write to $a0''"
    "instr_text faulty_env addu_instr = ''instruction''" "\<not> stop_on_error faulty_env"
    by (simp_all add: faulty_env_def plain_env_def Register_str_def)
  from faulty_write obtain nsb sb where
    f: "the (eval_fn faulty_env addu_instr)
      (idle_state\<lparr>regs := (regs idle_state)\<lparr>active_instr := Some addu_instr\<rparr>,
                   node_in_pattern := instr_in_pattern addu_instr\<rparr>) empty_state =
     Some (Some (DecompFailure (UndeclaredWrite ''a0'')), nsb, sb)"
    by blast
  have b: "translate_node_body 3 faulty_env False ([] @ addu_instr # []) idle_state empty_state =
      Some (Inl (InstrProcessingFailure addu_instr (DecompFailure (UndeclaredWrite ''a0''))),
            nsb\<lparr>regs := (regs nsb)\<lparr>active_instr := None\<rparr>, node_in_pattern := False\<rparr>, sb)"
    by (rule instr_failure_body [OF i(1) _ _ _ e f]) (simp_all add: a i)
  then have "(case translate_block 3 faulty_env False [addu_instr] idle_state empty_state of
      Some (Inr block_info, ns, s) \<Rightarrow> Some (block_to_write block_info)
    | _ \<Rightarrow> None) =
   Some [CommentStmt ''Error: Undeclared write to $a0'',
         CommentStmt ''At instruction: instruction'']"
    by (simp add: translate_block_def t new_ErrorExpr_def)
  with r show ?thesis by simp
qed

text \<open>
  C3, amended.  While an instruction is being evaluated, reading a register that is not
  among its inputs is not an error that is raised: \<open>__getitem__\<close> returns a fresh
  \<open>ErrorExpr\<close> and leaves the register state as it was.  Writing a register that is not
  among its outputs raises \<open>DecompFailure\<close> in \<open>set_with_meta\<close>, and
  \<open>set_reg_real\<close> lets it pass for every register but the zero register, which it
  never writes.  An exception raised by the semantics of an instruction of a block leaves
  \<open>translate_node_body\<close> wrapped in an \<open>InstrProcessingFailure\<close>;
  \<open>translate_block\<close> raises it again with \<open>stop_on_error\<close>, and otherwise catches it
  and returns a \<open>BlockInfo\<close> made of the comments for the error and the instruction, an
  \<open>ErrorExpr\<close> as branch condition and the register state as the exception left it.
\<close>

theorem undeclared_access:
  assumes "active_instr rg = Some instr"
  shows "(Reg key \<notin> set (inputs instr) \<longrightarrow>
            (\<exists>desc. RegInfo_getitem fuel rg key s =
               Some (Inr (ErrorExpr (next_oid s) (Some desc), rg,
                          s\<lparr>next_oid := Suc (next_oid s)\<rparr>)))) \<and>
         (Reg key \<notin> set (outputs instr) \<longrightarrow>
            set_with_meta rg key v meta = Inl (DecompFailure (UndeclaredWrite key)) \<and>
            (key \<noteq> ''zero'' \<and> regs ns = rg \<longrightarrow>
               set_reg_real_store fuel key v fn_return ns s =
                 Some (Inl (DecompFailure (UndeclaredWrite key)))) \<and>
            (key \<noteq> ''zero'' \<and> regs ns = rg \<and>
             eval_once fuel env uw_expr emit_exactly_once
               (case transparent of
                  None \<Rightarrow> should_wrap_transparently (cast_keeps_float env) uw_expr
                | Some t \<Rightarrow> t) key (Some instr) ns s = Some (Inr wrapper, ns1, s1) \<longrightarrow>
               set_reg_real fuel env key uw_expr transparent emit_exactly_once fn_return ns s =
                 Some (Inl (DecompFailure (UndeclaredWrite key)), ns1, s1))) \<and>
         (active_instr (regs nsi) = None \<and>
          evaluate_instructions env is_return_node pre nsi si = Some (None, nsa, sa) \<and>
          \<not> (is_return instr \<and> \<not> is_return_node) \<and>
          \<not> (is_conditional instr \<and> \<not> (branch_condition nsa = None \<and> switch_control nsa = None)) \<and>
          eval_fn env instr = Some f \<and>
          f (nsa\<lparr>regs := (regs nsa)\<lparr>active_instr := Some instr\<rparr>,
                 node_in_pattern := instr_in_pattern instr\<rparr>) sa = Some (Some err, nsb, sb) \<longrightarrow>
            translate_node_body fuel env is_return_node (pre @ instr # post) nsi si =
              Some (Inl (InstrProcessingFailure instr err),
                    nsb\<lparr>regs := (regs nsb)\<lparr>active_instr := None\<rparr>, node_in_pattern := False\<rparr>, sb) \<and>
            (stop_on_error env \<longrightarrow>
               translate_block fuel env is_return_node (pre @ instr # post) nsi si =
                 Some (Inl (InstrProcessingFailure instr err),
                       nsb\<lparr>regs := (regs nsb)\<lparr>active_instr := None\<rparr>, node_in_pattern := False\<rparr>, sb)) \<and>
            (\<not> stop_on_error env \<longrightarrow>
               translate_block fuel env is_return_node (pre @ instr # post) nsi si =
                 Some (Inr \<lparr>block_to_write =
                              [CommentStmt (''Error: '' @ error_text env err),
                               CommentStmt (''At instruction: '' @ instr_text env instr)],
                            return_value = None, block_switch_control = None,
                            block_branch_condition = Some (ErrorExpr (next_oid sb) None),
                            final_register_states = (regs nsb)\<lparr>active_instr := None\<rparr>,
                            block_has_function_call = False\<rparr>,
                       nsb\<lparr>regs := (regs nsb)\<lparr>active_instr := None\<rparr>, node_in_pattern := False\<rparr>,
                       sb\<lparr>next_oid := Suc (next_oid sb)\<rparr>)))"
proof -
  have rd: "Reg key \<notin> set (inputs instr) \<longrightarrow>
            (\<exists>desc. RegInfo_getitem fuel rg key s =
               Some (Inr (ErrorExpr (next_oid s) (Some desc), rg,
                          s\<lparr>next_oid := Suc (next_oid s)\<rparr>)))"
    using assms by (simp add: RegInfo_getitem_def new_ErrorExpr_def)
  have wr: "Reg key \<notin> set (outputs instr) \<longrightarrow>
            set_with_meta rg key v meta = Inl (DecompFailure (UndeclaredWrite key)) \<and>
            (key \<noteq> ''zero'' \<and> regs ns = rg \<longrightarrow>
               set_reg_real_store fuel key v fn_return ns s =
                 Some (Inl (DecompFailure (UndeclaredWrite key))))"
    using assms by (simp add: set_with_meta_def set_reg_real_store_def)
  have sr: "Reg key \<notin> set (outputs instr) \<longrightarrow>
            (key \<noteq> ''zero'' \<and> regs ns = rg \<and>
             eval_once fuel env uw_expr emit_exactly_once
               (case transparent of
                  None \<Rightarrow> should_wrap_transparently (cast_keeps_float env) uw_expr
                | Some t \<Rightarrow> t) key (Some instr) ns s = Some (Inr wrapper, ns1, s1) \<longrightarrow>
               set_reg_real fuel env key uw_expr transparent emit_exactly_once fn_return ns s =
                 Some (Inl (DecompFailure (UndeclaredWrite key)), ns1, s1))"
  proof (intro impI, elim conjE)
    assume o: "Reg key \<notin> set (outputs instr)" and z: "key \<noteq> ''zero''" and r: "regs ns = rg"
      and e: "eval_once fuel env uw_expr emit_exactly_once
               (case transparent of
                  None \<Rightarrow> should_wrap_transparently (cast_keeps_float env) uw_expr
                | Some t \<Rightarrow> t) key (Some instr) ns s = Some (Inr wrapper, ns1, s1)"
    from assms r have a: "active_instr (regs ns) = Some instr" by simp
    from set_reg_real_undeclared [OF a o z e]
    show "set_reg_real fuel env key uw_expr transparent emit_exactly_once fn_return ns s =
                 Some (Inl (DecompFailure (UndeclaredWrite key)), ns1, s1)" .
  qed
  have bl: "translate_node_body fuel env is_return_node (pre @ instr # post) nsi si =
              Some (Inl (InstrProcessingFailure instr err),
                    nsb\<lparr>regs := (regs nsb)\<lparr>active_instr := None\<rparr>, node_in_pattern := False\<rparr>, sb) \<and>
            (stop_on_error env \<longrightarrow>
               translate_block fuel env is_return_node (pre @ instr # post) nsi si =
                 Some (Inl (InstrProcessingFailure instr err),
                       nsb\<lparr>regs := (regs nsb)\<lparr>active_instr := None\<rparr>, node_in_pattern := False\<rparr>, sb)) \<and>
            (\<not> stop_on_error env \<longrightarrow>
               translate_block fuel env is_return_node (pre @ instr # post) nsi si =
                 Some (Inr \<lparr>block_to_write =
                              [CommentStmt (''Error: '' @ error_text env err),
                               CommentStmt (''At instruction: '' @ instr_text env instr)],
                            return_value = None, block_switch_control = None,
                            block_branch_condition = Some (ErrorExpr (next_oid sb) None),
                            final_register_states = (regs nsb)\<lparr>active_instr := None\<rparr>,
                            block_has_function_call = False\<rparr>,
                       nsb\<lparr>regs := (regs nsb)\<lparr>active_instr := None\<rparr>, node_in_pattern := False\<rparr>,
                       sb\<lparr>next_oid := Suc (next_oid sb)\<rparr>))"
    if h: "active_instr (regs nsi) = None \<and>
          evaluate_instructions env is_return_node pre nsi si = Some (None, nsa, sa) \<and>
          \<not> (is_return instr \<and> \<not> is_return_node) \<and>
          \<not> (is_conditional instr \<and> \<not> (branch_condition nsa = None \<and> switch_control nsa = None)) \<and>
          eval_fn env instr = Some f \<and>
          f (nsa\<lparr>regs := (regs nsa)\<lparr>active_instr := Some instr\<rparr>,
                 node_in_pattern := instr_in_pattern instr\<rparr>) sa = Some (Some err, nsb, sb)"
  proof -
    from h have b: "translate_node_body fuel env is_return_node (pre @ instr # post) nsi si =
              Some (Inl (InstrProcessingFailure instr err),
                    nsb\<lparr>regs := (regs nsb)\<lparr>active_instr := None\<rparr>, node_in_pattern := False\<rparr>, sb)"
      using instr_failure_body [where nsi = nsi and env = env and is_return_node = is_return_node
          and pre = pre and si = si and nsa = nsa and sa = sa and instr = instr and f = f
          and err = err and nsb = nsb and sb = sb and fuel = fuel and post = post]
      by blast
    then show ?thesis
      by (simp add: translate_block_def new_ErrorExpr_def)
  qed
  from rd wr sr bl show ?thesis by blast
qed

theorem undeclared_access_witness:
  "active_instr regs_in_addu = Some addu_instr \<and>
   Reg ''v0'' \<notin> set (inputs addu_instr) \<and> Reg ''a0'' \<notin> set (outputs addu_instr) \<and>
   (\<exists>desc. RegInfo_getitem 1 regs_in_addu ''v0'' empty_state =
      Some (Inr (ErrorExpr (next_oid empty_state) (Some desc), regs_in_addu,
                 empty_state\<lparr>next_oid := Suc (next_oid empty_state)\<rparr>))) \<and>
   set_with_meta regs_in_addu ''a0'' (Literal 1) new_RegMeta =
     Inl (DecompFailure (UndeclaredWrite ''a0'')) \<and>
   active_instr (regs idle_state) = None \<and>
   evaluate_instructions faulty_env False [] idle_state empty_state = Some (None, idle_state, empty_state) \<and>
   (\<exists>nsb sb.
      the (eval_fn faulty_env addu_instr)
        (idle_state\<lparr>regs := (regs idle_state)\<lparr>active_instr := Some addu_instr\<rparr>,
                     node_in_pattern := instr_in_pattern addu_instr\<rparr>) empty_state =
        Some (Some (DecompFailure (UndeclaredWrite ''a0'')), nsb, sb) \<and>
      translate_block 3 (faulty_env\<lparr>stop_on_error := True\<rparr>) False [addu_instr] idle_state empty_state =
        Some (Inl (InstrProcessingFailure addu_instr (DecompFailure (UndeclaredWrite ''a0''))),
              nsb\<lparr>regs := (regs nsb)\<lparr>active_instr := None\<rparr>, node_in_pattern := False\<rparr>, sb) \<and>
      translate_block 3 faulty_env False [addu_instr] idle_state empty_state =
        Some (Inr \<lparr>block_to_write =
                     [CommentStmt ''Error: Undeclared write to $a0'',
                      CommentStmt ''At instruction: instruction''],
                   return_value = None, block_switch_control = None,
                   block_branch_condition = Some (ErrorExpr (next_oid sb) None),
                   final_register_states = (regs nsb)\<lparr>active_instr := None\<rparr>,
                   block_has_function_call = False\<rparr>,
              nsb\<lparr>regs := (regs nsb)\<lparr>active_instr := None\<rparr>, node_in_pattern := False\<rparr>,
              sb\<lparr>next_oid := Suc (next_oid sb)\<rparr>))"
proof -
  have h: "active_instr regs_in_addu = Some addu_instr" by (simp add: regs_in_addu_def)
  have i: "Reg ''v0'' \<notin> set (inputs addu_instr)" and o: "Reg ''a0'' \<notin> set (outputs addu_instr)"
    by (simp_all add: addu_instr_def)
  have idle: "active_instr (regs idle_state) = None" "branch_condition idle_state = None"
    "switch_control idle_state = None"
    by (simp_all add: idle_state_def regs_idle_def)
  have a: "\<not> is_return addu_instr" "\<not> is_conditional addu_instr"
    by (simp_all add: addu_instr_def)
  have pre: "\<And>env. evaluate_instructions env False [] idle_state empty_state = Some (None, idle_state, empty_state)"
    by simp
  let ?f = "the (eval_fn faulty_env addu_instr)"
  have e1: "eval_fn faulty_env addu_instr = Some ?f"
    and e2: "eval_fn (faulty_env\<lparr>stop_on_error := True\<rparr>) addu_instr = Some ?f"
    by (simp_all add: faulty_env_def)
  have t: "error_text faulty_env (DecompFailure (UndeclaredWrite ''a0'')) = ''Undeclared write to $a0''"
    "instr_text faulty_env addu_instr = ''instruction''" "\<not> stop_on_error faulty_env"
    "stop_on_error (faulty_env\<lparr>stop_on_error := True\<rparr>)"
    by (simp_all add: faulty_env_def plain_env_def Register_str_def)
  from faulty_write obtain nsb sb where
    f: "?f (idle_state\<lparr>regs := (regs idle_state)\<lparr>active_instr := Some addu_instr\<rparr>,
                   node_in_pattern := instr_in_pattern addu_instr\<rparr>) empty_state =
     Some (Some (DecompFailure (UndeclaredWrite ''a0'')), nsb, sb)"
    by blast
  have rd: "\<exists>desc. RegInfo_getitem 1 regs_in_addu ''v0'' empty_state =
      Some (Inr (ErrorExpr (next_oid empty_state) (Some desc), regs_in_addu,
                 empty_state\<lparr>next_oid := Suc (next_oid empty_state)\<rparr>))"
    using conjunct1 [OF undeclared_access [OF h, where key = "''v0''" and fuel = 1 and s = empty_state]] i
    by (rule mp)
  have "Reg ''a0'' \<notin> set (outputs addu_instr) \<longrightarrow>
     set_with_meta regs_in_addu ''a0'' (Literal 1) new_RegMeta =
       Inl (DecompFailure (UndeclaredWrite ''a0''))"
    using conjunct1 [OF conjunct2 [OF undeclared_access [OF h, where key = "''a0''"
        and v = "Literal 1" and meta = new_RegMeta]]]
    by (rule impI [OF conjunct1 [OF mp]])
  with o have wr: "set_with_meta regs_in_addu ''a0'' (Literal 1) new_RegMeta =
     Inl (DecompFailure (UndeclaredWrite ''a0''))"
    by blast
  have b1: "translate_block 3 (faulty_env\<lparr>stop_on_error := True\<rparr>) False ([] @ addu_instr # [])
        idle_state empty_state =
        Some (Inl (InstrProcessingFailure addu_instr (DecompFailure (UndeclaredWrite ''a0''))),
              nsb\<lparr>regs := (regs nsb)\<lparr>active_instr := None\<rparr>, node_in_pattern := False\<rparr>, sb)"
    using undeclared_access [OF h, where env = "faulty_env\<lparr>stop_on_error := True\<rparr>"
        and nsi = idle_state and is_return_node = False and pre = "[]" and si = empty_state
        and nsa = idle_state and sa = empty_state and f = ?f
        and err = "DecompFailure (UndeclaredWrite ''a0'')" and nsb = nsb and sb = sb
        and fuel = 3 and post = "[]"]
      idle a pre e2 f t(4)
    by blast
  have b2: "translate_block 3 faulty_env False ([] @ addu_instr # []) idle_state empty_state =
        Some (Inr \<lparr>block_to_write =
                     [CommentStmt (''Error: '' @ error_text faulty_env (DecompFailure (UndeclaredWrite ''a0''))),
                      CommentStmt (''At instruction: '' @ instr_text faulty_env addu_instr)],
                   return_value = None, block_switch_control = None,
                   block_branch_condition = Some (ErrorExpr (next_oid sb) None),
                   final_register_states = (regs nsb)\<lparr>active_instr := None\<rparr>,
                   block_has_function_call = False\<rparr>,
              nsb\<lparr>regs := (regs nsb)\<lparr>active_instr := None\<rparr>, node_in_pattern := False\<rparr>,
              sb\<lparr>next_oid := Suc (next_oid sb)\<rparr>)"
    using undeclared_access [OF h, where env = faulty_env
        and nsi = idle_state and is_return_node = False and pre = "[]" and si = empty_state
        and nsa = idle_state and sa = empty_state and f = ?f
        and err = "DecompFailure (UndeclaredWrite ''a0'')" and nsb = nsb and sb = sb
        and fuel = 3 and post = "[]"]
      idle a pre e1 f t(3)
    by blast
  from b2 have b2': "translate_block 3 faulty_env False [addu_instr] idle_state empty_state =
        Some (Inr \<lparr>block_to_write =
                     [CommentStmt ''Error: Undeclared write to $a0'',
                      CommentStmt ''At instruction: instruction''],
                   return_value = None, block_switch_control = None,
                   block_branch_condition = Some (ErrorExpr (next_oid sb) None),
                   final_register_states = (regs nsb)\<lparr>active_instr := None\<rparr>,
                   block_has_function_call = False\<rparr>,
              nsb\<lparr>regs := (regs nsb)\<lparr>active_instr := None\<rparr>, node_in_pattern := False\<rparr>,
              sb\<lparr>next_oid := Suc (next_oid sb)\<rparr>)"
    by (simp add: t)
  from b1 have b1': "translate_block 3 (faulty_env\<lparr>stop_on_error := True\<rparr>) False [addu_instr]
        idle_state empty_state =
        Some (Inl (InstrProcessingFailure addu_instr (DecompFailure (UndeclaredWrite ''a0''))),
              nsb\<lparr>regs := (regs nsb)\<lparr>active_instr := None\<rparr>, node_in_pattern := False\<rparr>, sb)"
    by simp
  from h i o rd wr idle(1) pre f b1' b2' show ?thesis by blast
qed

text \<open>
  C4, as stated, fails for a read inside an instruction that does not declare the zero
  register among its inputs: the check of the inputs comes first, and the read returns an
  \<open>ErrorExpr\<close>, not the literal 0.
\<close>

theorem zero_read_counterexample:
  "RegInfo_getitem 1 regs_in_addu ''zero'' empty_state =
     Some (Inr (ErrorExpr 100 (Some ''Read from unset register $zero on line 7''),
                regs_in_addu, empty_state\<lparr>next_oid := 101\<rparr>))"
  by (simp add: RegInfo_getitem_def regs_in_addu_def addu_instr_def empty_state_def
      new_ErrorExpr_def get_instruction_lineno_def str_int_7 Register_str_def)

lemma getitem_keeps_zero_unbound:
  assumes "RegInfo_getitem fuel rg key s = Some (Inr (e, rg', s'))"
    and "contents rg ''zero'' = None"
  shows "contents rg' ''zero'' = None"
proof (cases "key = ''zero''")
  case True
  with assms show ?thesis
    by (auto simp: RegInfo_getitem_def new_ErrorExpr_def split: if_splits option.splits)
next
  case False
  show ?thesis
  proof (cases "contents rg key")
    case None
    with assms False show ?thesis
      by (auto simp: RegInfo_getitem_def new_ErrorExpr_def split: if_splits option.splits)
  next
    case (Some data)
    have "rg' = rg \<or> contents rg' = (contents rg)(key \<mapsto>
            data\<lparr>reg_meta := (reg_meta data)\<lparr>is_read := True\<rparr>\<rparr>)"
      using assms(1) False Some
      by (auto simp: RegInfo_getitem_def new_ErrorExpr_def Let_def
          split: if_splits option.splits)
    with assms(2) False show ?thesis by auto
  qed
qed

text \<open>
  C4, amended.  Outside an instruction, or inside one that declares the zero register
  among its inputs, reading the zero register returns the literal 0 and changes nothing.
  Every method that writes the register map fails when asked to write the zero register,
  \<open>set_reg_real\<close> never assigns it, and no read or write of any register binds it: if the
  zero register is unbound before, it is unbound afterwards.
\<close>

theorem zero_register:
  "((active_instr rg = None \<or>
     (\<exists>instr. active_instr rg = Some instr \<and> Reg ''zero'' \<in> set (inputs instr))) \<longrightarrow>
      RegInfo_getitem fuel rg ''zero'' s = Some (Inr (Literal 0, rg, s))) \<and>
   isl (set_with_meta rg ''zero'' v meta) \<and>
   isl (global_set_with_meta rg ''zero'' v meta) \<and>
   isl (update_meta rg ''zero'' meta) \<and>
   isl (RegInfo_delitem rg ''zero'') \<and>
   (set_reg_real_store fuel ''zero'' v fn_return ns s = Some (Inr (ns', s')) \<longrightarrow>
      regs ns' = regs ns) \<and>
   (contents rg ''zero'' = None \<longrightarrow>
      (set_with_meta rg key v meta = Inr rg' \<or>
       global_set_with_meta rg key v meta = Inr rg' \<or>
       update_meta rg key meta = Inr rg' \<or>
       RegInfo_delitem rg key = Inr rg' \<or>
       RegInfo_getitem fuel rg key s = Some (Inr (e, rg', s'))) \<longrightarrow>
      contents rg' ''zero'' = None)"
proof (intro conjI impI)
  assume "active_instr rg = None \<or>
     (\<exists>instr. active_instr rg = Some instr \<and> Reg ''zero'' \<in> set (inputs instr))"
  then show "RegInfo_getitem fuel rg ''zero'' s = Some (Inr (Literal 0, rg, s))"
    by (auto simp: RegInfo_getitem_def)
next
  show "isl (set_with_meta rg ''zero'' v meta)"
    by (simp add: set_with_meta_def split: option.splits)
next
  show "isl (global_set_with_meta rg ''zero'' v meta)"
    by (simp add: global_set_with_meta_def)
next
  show "isl (update_meta rg ''zero'' meta)"
    by (simp add: update_meta_def)
next
  show "isl (RegInfo_delitem rg ''zero'')"
    by (simp add: RegInfo_delitem_def)
next
  assume "set_reg_real_store fuel ''zero'' v fn_return ns s = Some (Inr (ns', s'))"
  then show "regs ns' = regs ns"
    by (auto simp: set_reg_real_store_def split: option.splits)
next
  assume z: "contents rg ''zero'' = None"
    and w: "set_with_meta rg key v meta = Inr rg' \<or>
       global_set_with_meta rg key v meta = Inr rg' \<or>
       update_meta rg key meta = Inr rg' \<or>
       RegInfo_delitem rg key = Inr rg' \<or>
       RegInfo_getitem fuel rg key s = Some (Inr (e, rg', s'))"
  from w show "contents rg' ''zero'' = None"
  proof (elim disjE)
    assume "RegInfo_getitem fuel rg key s = Some (Inr (e, rg', s'))"
    then show ?thesis using z by (rule getitem_keeps_zero_unbound)
  qed (use z in \<open>auto simp: set_with_meta_def global_set_with_meta_def update_meta_def
        RegInfo_delitem_def split: option.splits if_splits\<close>)
qed

theorem zero_register_witness:
  "active_instr regs_idle = None \<and> contents regs_idle ''zero'' = None \<and>
   RegInfo_getitem 1 regs_idle ''zero'' empty_state = Some (Inr (Literal 0, regs_idle, empty_state)) \<and>
   isl (global_set_with_meta regs_idle ''zero'' (Literal 5) new_RegMeta) \<and>
   global_set_with_meta regs_idle ''v0'' (Literal 5) new_RegMeta =
     Inr (regs_idle\<lparr>contents := [''v0'' \<mapsto> \<lparr>reg_value = Literal 5, reg_meta = new_RegMeta\<rparr>]\<rparr>) \<and>
   contents (regs_idle\<lparr>contents := [''v0'' \<mapsto> \<lparr>reg_value = Literal 5, reg_meta = new_RegMeta\<rparr>]\<rparr>)
     ''zero'' = None"
proof -
  let ?r = "regs_idle\<lparr>contents := [''v0'' \<mapsto> \<lparr>reg_value = Literal 5, reg_meta = new_RegMeta\<rparr>]\<rparr>"
  have h: "active_instr regs_idle = None" and z: "contents regs_idle ''zero'' = None"
    by (simp_all add: regs_idle_def)
  have w: "global_set_with_meta regs_idle ''v0'' (Literal 5) new_RegMeta = Inr ?r"
    by (simp add: global_set_with_meta_def regs_idle_def)
  from zero_register [where rg = regs_idle and fuel = 1 and s = empty_state and v = "Literal 5"
      and meta = new_RegMeta and key = "''v0''" and rg' = ?r] h z w
  show ?thesis by blast
qed

subsection \<open>Sources of a phi and the assertions of assign\_naive\_phis\<close>



















lemma writes_reg_scan: "writes_reg g reg n \<longleftrightarrow> (\<exists>instr. node_scan g reg n = Source instr)"
  by (cases "node_scan g reg n") (auto simp: writes_reg_def)
















subsection \<open>Resolution of a naive phi\<close>











lemma add_equivalent_nonempty: "add_equivalent k n eqn \<noteq> []"
  by (cases eqn) (auto split: if_splits)













end
